theory Spec2Isabelle
  imports Main
begin

section \<open>Data model of user-risk-demo.js\<close>

text \<open>
  The worker talks to three collaborators: the Cloudflare HTTP API (through \<open>fetch\<close>),
  the KV namespace \<open>USER_RISK_KV\<close> and the timer (\<open>setTimeout\<close>). The model makes each
  of them explicit. The HTTP API is an environment \<open>http\<close> that gives, for a request and
  the number of the attempt made for it, what \<open>fetch\<close> does; the KV namespace is what
  \<open>env.USER_RISK_KV\<close> holds in the world state, which is nothing when the \<open>env\<close> object
  has no such binding; every call the code makes is appended to a log in the world state.
  Two runs that see different answers to the same request (a list before and after a
  PATCH) are given two environments.
\<close>

type_synonym email = string
type_synonym list_id = string
type_synonym timestamp = string

datatype http_method = GET | PUT | PATCH | POST | DELETE

text \<open>An item of a Gateway list, \<open>{ value, description }\<close>.\<close>

record list_item =
  item_value :: email
  item_description :: string

text \<open>A user of the risk-scoring summary; only the fields the worker reads.\<close>

record user =
  user_email :: email
  max_risk_level :: string

text \<open>The URLs the modelled functions request.\<close>

datatype target =
    RiskSummaryPage nat nat
  | ListItemsPage list_id nat nat
  | ListResource list_id

text \<open>
  Request bodies. A PATCH body is built by assignment to an empty object, so each of
  \<open>append\<close> and \<open>remove\<close> may be absent. A PUT body carries name (left out by
  \<open>JSON.stringify\<close> when it is \<open>undefined\<close>), description and items.
\<close>

datatype body =
    NoBody
  | PatchBody "list_item list option" "email list option"
  | PutBody "string option" string "list_item list"

record request =
  req_method :: http_method
  req_target :: target
  req_body :: body

text \<open>
  The JSON document of a response, as far as the worker reads it: \<open>success\<close>, \<open>errors\<close>,
  \<open>result\<close> and \<open>result_info.page\<close> / \<open>result_info.total_pages\<close>. An absent number is
  \<open>None\<close> (\<open>undefined\<close> in the source).
\<close>

text \<open>
  The \<open>result\<close> of a document: absent (\<open>NoResult\<close>), an array of list items, the object
  \<open>{ users }\<close> of the risk summary, or the object \<open>{ name, description }\<close> of a list.
\<close>

datatype result_payload =
    NoResult
  | ItemsResult "list_item list"
  | UsersResult "user list"
  | ListInfoResult string "string option"

record api_data =
  data_success :: bool
  data_errors :: "string list"
  data_result :: result_payload
  data_page :: "int option"
  data_total_pages :: "int option"

text \<open>
  A response: its status, what \<open>headers.get('Retry-After')\<close> returns, and what
  \<open>response.json()\<close> resolves to (\<open>Inl\<close>: it rejects with that message).
\<close>

record response =
  status :: nat
  retry_after :: "string option"
  json :: "string + api_data"

datatype fetch_outcome = NetworkError string | Response response

type_synonym env = "request \<Rightarrow> nat \<Rightarrow> fetch_outcome"

text \<open>
  A timeout handed to \<open>setTimeout\<close>, in milliseconds. \<open>HeaderSeconds h\<close> is the product
  \<open>h * 1000\<close> of the source, where \<open>h\<close> is the text of the Retry-After header.
\<close>

datatype duration = Millis nat | HeaderSeconds string

text \<open>
  The value stored in KV under \<open>gateway_list_<id>\<close>: the object that is written with
  \<open>JSON.stringify\<close> and read back with \<open>JSON.parse\<close>. A field the writer leaves out is
  \<open>None\<close>. A key that was never written reads as \<open>None\<close> (\<open>null\<close> in the source).
\<close>

record stored_state =
  emails :: "email list"
  riskLevel :: "string option"
  lastUpdated :: "timestamp option"
  userCount :: "nat option"
  lastAttempt :: "timestamp option"
  reconciliationNeeded :: "bool option"
  lastReconciliationAttempt :: "timestamp option"

datatype effect =
    ApiCall request
  | Fetch request
  | Sleep duration
  | KVGet string
  | KVPut string stored_state "nat option"

text \<open>
  The namespace behind \<open>env.USER_RISK_KV\<close>: what is stored under each key, and for each
  key the message with which \<open>put\<close> rejects a write to it (\<open>None\<close>: the write is
  accepted). A \<open>get\<close> resolves to what is stored.
\<close>

record kv_namespace =
  entries :: "string \<Rightarrow> stored_state option"
  put_error :: "string \<Rightarrow> string option"

text \<open>
  The world a call runs in: the binding \<open>env.USER_RISK_KV\<close> (\<open>None\<close> when the \<open>env\<close>
  object handed to the call has no such property, as in updateRiskListsAPI, which calls
  handleRequest with an object of the five strings only) and the log of the calls made.
  An effect in the log is a call that was made, whether or not the collaborator
  accepted it.
\<close>

record world =
  USER_RISK_KV :: "kv_namespace option"
  log :: "effect list"

definition emit :: "effect \<Rightarrow> world \<Rightarrow> world" where
  "emit e w = w\<lparr>log := log w @ [e]\<rparr>"

text \<open>What is stored under a key, as a \<open>get\<close> through the binding reads it.\<close>

definition kv :: "world \<Rightarrow> string \<Rightarrow> stored_state option" where
  "kv w = (case USER_RISK_KV w of None \<Rightarrow> (\<lambda>k. None) | Some ns \<Rightarrow> entries ns)"

text \<open>
  \<open>await env.USER_RISK_KV.get(key)\<close> and \<open>await env.USER_RISK_KV.put(key, value, options)\<close>.
  Without the binding the property access throws a TypeError before any call is made.
\<close>

definition kv_get :: "string \<Rightarrow> world \<Rightarrow> (string + stored_state option) \<times> world" where
  "kv_get k w =
     (case USER_RISK_KV w of
        None \<Rightarrow> (Inl ''Cannot read properties of undefined (reading 'get')'', w)
      | Some ns \<Rightarrow> (Inr (entries ns k), emit (KVGet k) w))"

definition kv_put ::
  "string \<Rightarrow> stored_state \<Rightarrow> nat option \<Rightarrow> world \<Rightarrow> string option \<times> world" where
  "kv_put k v ttl w =
     (case USER_RISK_KV w of
        None \<Rightarrow> (Some ''Cannot read properties of undefined (reading 'put')'', w)
      | Some ns \<Rightarrow>
          (case put_error ns k of
             Some msg \<Rightarrow> (Some msg, emit (KVPut k v ttl) w)
           | None \<Rightarrow>
               (None,
                emit (KVPut k v ttl)
                  (w\<lparr>USER_RISK_KV := Some (ns\<lparr>entries := (entries ns)(k \<mapsto> v)\<rparr>)\<rparr>))))"

section \<open>Retrying transport: makeApiRequest\<close>

datatype api_result = Returned response | ReturnedUndefined | Threw string

text \<open>
  \<open>const retryAfter = response.headers.get('Retry-After') || Math.pow(2, attempt)\<close>,
  then \<open>setTimeout(resolve, retryAfter * 1000)\<close>. The operator \<open>||\<close> takes its right
  operand when the left one is \<open>null\<close> or the empty string.
\<close>

definition retryAfter :: "response \<Rightarrow> nat \<Rightarrow> duration" where
  "retryAfter r attempt =
     (case retry_after r of
        Some h \<Rightarrow> if h \<noteq> [] then HeaderSeconds h else Millis (2 ^ attempt * 1000)
      | None \<Rightarrow> Millis (2 ^ attempt * 1000))"

text \<open>The loop \<open>for (let attempt = 1; attempt <= maxRetries; attempt++)\<close>, from \<open>attempt\<close> on.\<close>

function makeApiRequest_from ::
  "env \<Rightarrow> request \<Rightarrow> nat \<Rightarrow> nat \<Rightarrow> world \<Rightarrow> api_result \<times> world" where
  "makeApiRequest_from http req maxRetries attempt w =
     (if attempt \<le> maxRetries then
        (case http req attempt of
           Response r \<Rightarrow>
             if status r = 429 then
               makeApiRequest_from http req maxRetries (attempt + 1)
                 (emit (Sleep (retryAfter r attempt)) (emit (Fetch req) w))
             else if 500 \<le> status r \<and> attempt < maxRetries then
               makeApiRequest_from http req maxRetries (attempt + 1)
                 (emit (Sleep (Millis (2 ^ attempt * 1000))) (emit (Fetch req) w))
             else (Returned r, emit (Fetch req) w)
         | NetworkError msg \<Rightarrow>
             if attempt = maxRetries then (Threw msg, emit (Fetch req) w)
             else
               makeApiRequest_from http req maxRetries (attempt + 1)
                 (emit (Sleep (Millis (2 ^ attempt * 1000))) (emit (Fetch req) w)))
      else (ReturnedUndefined, w))"
  by pat_completeness auto
termination
  by (relation "measure (\<lambda>(http, req, maxRetries, attempt, w). maxRetries + 1 - attempt)") auto

declare makeApiRequest_from.simps [simp del]

definition makeApiRequest :: "env \<Rightarrow> request \<Rightarrow> nat \<Rightarrow> world \<Rightarrow> api_result \<times> world" where
  "makeApiRequest http req maxRetries w =
     makeApiRequest_from http req maxRetries 1 (emit (ApiCall req) w)"

text \<open>\<open>await x.json()\<close> on what makeApiRequest produced.\<close>

definition json_of :: "api_result \<Rightarrow> string + api_data" where
  "json_of x =
     (case x of
        Returned r \<Rightarrow> json r
      | ReturnedUndefined \<Rightarrow> Inl ''Cannot read properties of undefined (reading 'json')''
      | Threw msg \<Rightarrow> Inl msg)"

section \<open>Paginated fetchers\<close>

text \<open>
  \<open>hasMore = resultInfo.page < resultInfo.total_pages\<close>, where
  \<open>resultInfo = data.result_info || {}\<close>: a comparison with \<open>undefined\<close> is false.
\<close>

definition js_less :: "int option \<Rightarrow> int option \<Rightarrow> bool" where
  "js_less a b = (case a of None \<Rightarrow> False | Some x \<Rightarrow> (case b of None \<Rightarrow> False | Some y \<Rightarrow> x < y))"

text \<open>\<open>data.result?.users || []\<close>.\<close>

definition result_users :: "result_payload \<Rightarrow> user list" where
  "result_users p = (case p of UsersResult us \<Rightarrow> us | _ \<Rightarrow> [])"

text \<open>
  \<open>const items = data.result || []; allItems.push(...items)\<close>: spreading a result that
  is an object and not an array throws.
\<close>

definition result_items :: "result_payload \<Rightarrow> string + list_item list" where
  "result_items p =
     (case p of
        NoResult \<Rightarrow> Inr []
      | ItemsResult xs \<Rightarrow> Inr xs
      | UsersResult us \<Rightarrow>
          Inl ''Spread syntax requires ...iterable[Symbol.iterator] to be a function''
      | ListInfoResult n d \<Rightarrow>
          Inl ''Spread syntax requires ...iterable[Symbol.iterator] to be a function'')"

record risk_result =
  rr_success :: bool
  rr_users :: "user list option"
  rr_errors :: "string list option"
  rr_pagination :: "(nat \<times> nat \<times> nat) option"

definition riskPageRequest :: "nat \<Rightarrow> request" where
  "riskPageRequest page =
     \<lparr>req_method = GET, req_target = RiskSummaryPage page 50, req_body = NoBody\<rparr>"

text \<open>
  The loop \<open>while (hasMore && totalRequests < 100)\<close> of fetchAllUserRiskScores together
  with the returns around it; the third component of the pagination is
  \<open>pagesProcessed = page - 1\<close>.
\<close>

function fetchAllUserRiskScores_loop ::
  "env \<Rightarrow> nat \<Rightarrow> bool \<Rightarrow> nat \<Rightarrow> user list \<Rightarrow> world \<Rightarrow> risk_result \<times> world" where
  "fetchAllUserRiskScores_loop http page hasMore totalRequests allUsers w =
     (if hasMore \<and> totalRequests < 100 then
        (case makeApiRequest http (riskPageRequest page) 3 w of
           (response, w1) \<Rightarrow>
             (case json_of response of
                Inl msg \<Rightarrow>
                  (\<lparr>rr_success = False, rr_users = None, rr_errors = Some [msg],
                    rr_pagination = None\<rparr>, w1)
              | Inr data \<Rightarrow>
                  if \<not> data_success data then
                    (\<lparr>rr_success = False, rr_users = None,
                      rr_errors = Some (data_errors data), rr_pagination = None\<rparr>, w1)
                  else
                    fetchAllUserRiskScores_loop http (page + 1)
                      (js_less (data_page data) (data_total_pages data))
                      (totalRequests + 1)
                      (allUsers @ result_users (data_result data))
                      (if js_less (data_page data) (data_total_pages data)
                       then emit (Sleep (Millis 100)) w1 else w1)))
      else
        (\<lparr>rr_success = True, rr_users = Some allUsers, rr_errors = None,
          rr_pagination = Some (length allUsers, totalRequests, page - 1)\<rparr>, w))"
  by pat_completeness auto
termination
  by (relation "measure (\<lambda>(http, page, hasMore, totalRequests, allUsers, w). 100 - totalRequests)")
    auto

declare fetchAllUserRiskScores_loop.simps [simp del]

definition fetchAllUserRiskScores :: "env \<Rightarrow> world \<Rightarrow> risk_result \<times> world" where
  "fetchAllUserRiskScores http w = fetchAllUserRiskScores_loop http 1 True 0 [] w"

text \<open>
  The two object literals fetchGatewayListItems returns: \<open>{ riskLevel, listId, items,
  pagination }\<close> after the loop and \<open>{ riskLevel, listId, items: [], error }\<close> from the
  catch block.
\<close>

record items_result =
  ir_riskLevel :: "string option"
  ir_listId :: list_id
  ir_items :: "list_item list"
  ir_pagination :: "(nat \<times> nat \<times> nat) option"
  ir_error :: "string option"

text \<open>
  Neither literal has a property \<open>success\<close>, so \<open>result.success\<close>, which
  handleReconciliation and updateGatewayList test, is \<open>undefined\<close> on every result of
  fetchGatewayListItems, and a condition reads it as false.
\<close>

definition ir_success :: "items_result \<Rightarrow> bool" where
  "ir_success r = False"

definition listItemsRequest :: "list_id \<Rightarrow> nat \<Rightarrow> request" where
  "listItemsRequest listId page =
     \<lparr>req_method = GET, req_target = ListItemsPage listId page 100, req_body = NoBody\<rparr>"

text \<open>
  The loop \<open>while (hasMore && totalRequests < 50)\<close> inside the try block. \<open>Inl msg\<close>: an
  exception with that message leaves the loop for the catch block; \<open>Inr (allItems,
  totalRequests, page)\<close>: the loop ended, by its condition or by \<open>break\<close>.
\<close>

function fetchGatewayListItems_loop ::
  "env \<Rightarrow> list_id \<Rightarrow> nat \<Rightarrow> bool \<Rightarrow> nat \<Rightarrow> list_item list \<Rightarrow> world
     \<Rightarrow> (string + list_item list \<times> nat \<times> nat) \<times> world" where
  "fetchGatewayListItems_loop http listId page hasMore totalRequests allItems w =
     (if hasMore \<and> totalRequests < 50 then
        (case makeApiRequest http (listItemsRequest listId page) 3 w of
           (response, w1) \<Rightarrow>
             (case json_of response of
                Inl msg \<Rightarrow> (Inl msg, w1)
              | Inr data \<Rightarrow>
                  if \<not> data_success data then (Inr (allItems, totalRequests + 1, page), w1)
                  else
                    (case result_items (data_result data) of
                       Inl msg \<Rightarrow> (Inl msg, w1)
                     | Inr items \<Rightarrow>
                         fetchGatewayListItems_loop http listId (page + 1)
                           (js_less (data_page data) (data_total_pages data))
                           (totalRequests + 1)
                           (allItems @ items)
                           (if js_less (data_page data) (data_total_pages data)
                            then emit (Sleep (Millis 50)) w1 else w1))))
      else (Inr (allItems, totalRequests, page), w))"
  by pat_completeness auto
termination
  by (relation
      "measure (\<lambda>(http, listId, page, hasMore, totalRequests, allItems, w). 50 - totalRequests)")
    auto

declare fetchGatewayListItems_loop.simps [simp del]

definition fetchGatewayListItems ::
  "env \<Rightarrow> list_id \<Rightarrow> string option \<Rightarrow> world \<Rightarrow> items_result \<times> world" where
  "fetchGatewayListItems http listId level w =
     (case fetchGatewayListItems_loop http listId 1 True 0 [] w of
        (Inr (allItems, totalRequests, page), w') \<Rightarrow>
          (\<lparr>ir_riskLevel = level, ir_listId = listId, ir_items = allItems,
            ir_pagination = Some (length allItems, totalRequests, page - 1),
            ir_error = None\<rparr>, w')
      | (Inl msg, w') \<Rightarrow>
          (\<lparr>ir_riskLevel = level, ir_listId = listId, ir_items = [],
            ir_pagination = None, ir_error = Some msg\<rparr>, w'))"

section \<open>Snapshot store and reconciler\<close>

text \<open>
  A JavaScript \<open>Set\<close> built from an array keeps each element once, in the order of first
  insertion; \<open>[...set]\<close> lists it in that order, \<open>set.has\<close> is membership and
  \<open>set.size\<close> the length of that list.
\<close>

definition new_Set :: "'a list \<Rightarrow> 'a list" where
  "new_Set xs = rev (remdups (rev xs))"

definition setsEqual :: "'a list \<Rightarrow> 'a list \<Rightarrow> bool" where
  "setsEqual setA setB =
     (if length setA \<noteq> length setB then False
      else list_all (\<lambda>item. item \<in> set setB) setA)"

text \<open>A template literal prints an absent value as \<open>undefined\<close>.\<close>

definition js_str :: "string option \<Rightarrow> string" where
  "js_str x = (case x of None \<Rightarrow> ''undefined'' | Some s \<Rightarrow> s)"

text \<open>\<open>if (currentResult.error)\<close>: an absent or empty message is falsy.\<close>

definition js_truthy :: "string option \<Rightarrow> bool" where
  "js_truthy x = (case x of None \<Rightarrow> False | Some s \<Rightarrow> s \<noteq> [])"

definition kvKey :: "list_id \<Rightarrow> string" where
  "kvKey listId = ''gateway_list_'' @ listId"

text \<open>The object storeExpectedStateInKV writes; \<open>now\<close> is \<open>new Date().toISOString()\<close>.\<close>

definition expectedStateOf :: "user list \<Rightarrow> string \<Rightarrow> timestamp \<Rightarrow> stored_state" where
  "expectedStateOf users level now =
     \<lparr>emails = map user_email users, riskLevel = Some level, lastUpdated = Some now,
      userCount = Some (length users), lastAttempt = None, reconciliationNeeded = None,
      lastReconciliationAttempt = None\<rparr>"

text \<open>
  storeExpectedStateInKV returns \<open>{ success: true, userCount }\<close> once the put has
  resolved; when the put throws, the catch returns \<open>{ success: false, error }\<close> and
  nothing was written.
\<close>

record store_result =
  st_success :: bool
  st_userCount :: "nat option"
  st_error :: "string option"

definition storeExpectedStateInKV ::
  "list_id \<Rightarrow> user list \<Rightarrow> string \<Rightarrow> timestamp \<Rightarrow> world \<Rightarrow> store_result \<times> world" where
  "storeExpectedStateInKV listId users level now w =
     (case kv_put (kvKey listId) (expectedStateOf users level now) None w of
        (None, w1) \<Rightarrow>
          (\<lparr>st_success = True, st_userCount = Some (length users), st_error = None\<rparr>, w1)
      | (Some msg, w1) \<Rightarrow>
          (\<lparr>st_success = False, st_userCount = None, st_error = Some msg\<rparr>, w1))"

datatype sync_error = ErrorText string | ApiErrors "string list"

record sync_result =
  sr_success :: bool
  sr_added :: "nat option"
  sr_removed :: "nat option"
  sr_totalUsers :: "nat option"
  sr_method :: "string option"
  sr_message :: "string option"
  sr_error :: "sync_error option"

definition sync_failed :: "sync_error \<Rightarrow> sync_result" where
  "sync_failed e =
     \<lparr>sr_success = False, sr_added = None, sr_removed = None, sr_totalUsers = None,
      sr_method = None, sr_message = None, sr_error = Some e\<rparr>"

text \<open>Step 3 of syncGatewayListFromKV, on the two sets.\<close>

definition emailsToAdd :: "email list \<Rightarrow> email list \<Rightarrow> email list" where
  "emailsToAdd expectedEmails currentEmails =
     filter (\<lambda>email. email \<notin> set currentEmails) expectedEmails"

definition emailsToRemove :: "email list \<Rightarrow> email list \<Rightarrow> email list" where
  "emailsToRemove expectedEmails currentEmails =
     filter (\<lambda>email. email \<notin> set expectedEmails) currentEmails"

definition patchBody :: "stored_state \<Rightarrow> email list \<Rightarrow> email list \<Rightarrow> body" where
  "patchBody expectedState toAdd toRemove =
     PatchBody
       (if toAdd \<noteq> [] then
          Some (map (\<lambda>email.
            \<lparr>item_value = email,
             item_description = js_str (riskLevel expectedState) @ '' risk user - updated ''
               @ js_str (lastUpdated expectedState)\<rparr>) toAdd)
        else None)
       (if toRemove \<noteq> [] then Some toRemove else None)"

definition patchRequest :: "list_id \<Rightarrow> body \<Rightarrow> request" where
  "patchRequest listId b =
     \<lparr>req_method = PATCH, req_target = ListResource listId, req_body = b\<rparr>"

text \<open>Steps 3 and 4 of syncGatewayListFromKV, once the fetch has passed the error test.\<close>

definition sync_changes ::
  "env \<Rightarrow> list_id \<Rightarrow> stored_state \<Rightarrow> items_result \<Rightarrow> world \<Rightarrow> sync_result \<times> world" where
  "sync_changes http listId expectedState currentResult w =
     (let expectedEmails = new_Set (emails expectedState);
          currentEmails = new_Set (map item_value (ir_items currentResult));
          toAdd = emailsToAdd expectedEmails currentEmails;
          toRemove = emailsToRemove expectedEmails currentEmails
      in
        if toAdd \<noteq> [] \<or> toRemove \<noteq> [] then
          (case makeApiRequest http
                  (patchRequest listId (patchBody expectedState toAdd toRemove)) 3 w of
             (updateResult, w1) \<Rightarrow>
               (case json_of updateResult of
                  Inl msg \<Rightarrow> (sync_failed (ErrorText msg), w1)
                | Inr updateData \<Rightarrow>
                    if data_success updateData then
                      (\<lparr>sr_success = True, sr_added = Some (length toAdd),
                        sr_removed = Some (length toRemove),
                        sr_totalUsers = Some (length (emails expectedState)),
                        sr_method = Some ''PATCH'', sr_message = None, sr_error = None\<rparr>, w1)
                    else (sync_failed (ApiErrors (data_errors updateData)), w1)))
        else
          (\<lparr>sr_success = True, sr_added = Some 0, sr_removed = Some 0,
            sr_totalUsers = Some (length (emails expectedState)),
            sr_method = None, sr_message = Some ''Already in sync'', sr_error = None\<rparr>, w))"

definition syncGatewayListFromKV :: "env \<Rightarrow> list_id \<Rightarrow> world \<Rightarrow> sync_result \<times> world" where
  "syncGatewayListFromKV http listId w =
     (case kv_get (kvKey listId) w of
        (Inl msg, wg) \<Rightarrow> (sync_failed (ErrorText msg), wg)
      | (Inr None, wg) \<Rightarrow> (sync_failed (ErrorText ''No expected state in KV''), wg)
      | (Inr (Some expectedState), wg) \<Rightarrow>
          (case fetchGatewayListItems http listId None wg of
             (currentResult, w1) \<Rightarrow>
               if js_truthy (ir_error currentResult) then
                 (sync_failed (ErrorText (js_str (ir_error currentResult))), w1)
               else sync_changes http listId expectedState currentResult w1))"

text \<open>
  The remote list store is not part of the repository. A store that applies a PATCH
  faithfully drops the items whose value is listed under \<open>remove\<close> and adds the items
  under \<open>append\<close>; \<open>membership\<close> is the set of identifiers a list holds.
\<close>

definition remote_apply_patch :: "body \<Rightarrow> list_item list \<Rightarrow> list_item list" where
  "remote_apply_patch b its =
     (case b of
        PatchBody app rem \<Rightarrow>
          filter (\<lambda>i. item_value i \<notin> set (case rem of None \<Rightarrow> [] | Some r \<Rightarrow> r)) its
            @ (case app of None \<Rightarrow> [] | Some a \<Rightarrow> a)
      | _ \<Rightarrow> its)"

definition membership :: "list_item list \<Rightarrow> email set" where
  "membership its = set (map item_value its)"

section \<open>The scheduled cycle: handleRequest with request = 'notfetch'\<close>

definition highRiskUsers :: "user list \<Rightarrow> user list" where
  "highRiskUsers userRiskScores = filter (\<lambda>u. max_risk_level u = ''high'') userRiskScores"

definition mediumRiskUsers :: "user list \<Rightarrow> user list" where
  "mediumRiskUsers userRiskScores = filter (\<lambda>u. max_risk_level u = ''medium'') userRiskScores"

definition lowRiskUsers :: "user list \<Rightarrow> user list" where
  "lowRiskUsers userRiskScores = filter (\<lambda>u. max_risk_level u = ''low'') userRiskScores"

text \<open>
  Steps 1 to 4 of handleRequest, reached with \<open>request = 'notfetch'\<close> once the
  configuration has passed validation: by the scheduled trigger and \<open>/api/force-cleanup\<close>
  with the namespace bound, and by updateRiskListsAPI with an \<open>env\<close> that has no
  \<open>USER_RISK_KV\<close>. The results of the three calls of storeExpectedStateInKV are not read.
  \<open>t1\<close>, \<open>t2\<close>, \<open>t3\<close> are the three readings of the clock.
\<close>

definition handleRequest_notfetch ::
  "env \<Rightarrow> list_id \<Rightarrow> list_id \<Rightarrow> list_id \<Rightarrow> timestamp \<Rightarrow> timestamp \<Rightarrow> timestamp \<Rightarrow> world
     \<Rightarrow> (sync_result \<times> sync_result \<times> sync_result) option \<times> world" where
  "handleRequest_notfetch http highRiskListId mediumRiskListId lowRiskListId t1 t2 t3 w =
     (case fetchAllUserRiskScores http w of
        (userRiskResult, w1) \<Rightarrow>
          if \<not> rr_success userRiskResult then (None, w1)
          else
            (let userRiskScores = (case rr_users userRiskResult of None \<Rightarrow> [] | Some us \<Rightarrow> us);
                 w2 = snd (storeExpectedStateInKV highRiskListId
                            (highRiskUsers userRiskScores) ''high'' t1 w1);
                 w3 = snd (storeExpectedStateInKV mediumRiskListId
                            (mediumRiskUsers userRiskScores) ''medium'' t2 w2);
                 w4 = snd (storeExpectedStateInKV lowRiskListId
                            (lowRiskUsers userRiskScores) ''low'' t3 w3)
             in
               (case syncGatewayListFromKV http highRiskListId w4 of
                  (highResult, w5) \<Rightarrow>
                    (case syncGatewayListFromKV http mediumRiskListId w5 of
                       (mediumResult, w6) \<Rightarrow>
                         (case syncGatewayListFromKV http lowRiskListId w6 of
                            (lowResult, w7) \<Rightarrow>
                              (Some (highResult, mediumResult, lowResult), w7))))))"

section \<open>Consistency checker: handleReconciliation\<close>

record reconciliation_entry =
  re_listId :: list_id
  re_listName :: string
  re_consistent :: bool
  re_expectedCount :: nat
  re_actualCount :: nat
  re_expectedEmails :: "email list"
  re_actualEmails :: "email list"
  re_lastUpdated :: "timestamp option"
  re_reconciliationNeeded :: bool

definition reconciliation_entry_of ::
  "list_id \<Rightarrow> string \<Rightarrow> stored_state \<Rightarrow> items_result \<Rightarrow> reconciliation_entry" where
  "reconciliation_entry_of listId listName expectedState currentItemsResult =
     (let expectedEmails = new_Set (emails expectedState);
          currentEmails = new_Set (map item_value (ir_items currentItemsResult))
      in
        \<lparr>re_listId = listId, re_listName = listName,
         re_consistent = setsEqual currentEmails expectedEmails,
         re_expectedCount = length expectedEmails, re_actualCount = length currentEmails,
         re_expectedEmails = expectedEmails, re_actualEmails = currentEmails,
         re_lastUpdated = lastUpdated expectedState,
         re_reconciliationNeeded =
           (case reconciliationNeeded expectedState of None \<Rightarrow> False | Some b \<Rightarrow> b)\<rparr>)"

text \<open>
  The loop \<open>for (const list of listIds)\<close>; \<open>continue\<close> is the call on the rest. \<open>Inl\<close> is
  an exception that leaves the loop for the catch of handleReconciliation.
\<close>

fun handleReconciliation_loop ::
  "env \<Rightarrow> (list_id \<times> string) list \<Rightarrow> reconciliation_entry list \<Rightarrow> world
     \<Rightarrow> (string + reconciliation_entry list) \<times> world" where
  "handleReconciliation_loop http [] reconciliationResults w = (Inr reconciliationResults, w)"
| "handleReconciliation_loop http ((listId, listName) # rest) reconciliationResults w =
     (case kv_get (kvKey listId) w of
        (Inl msg, wg) \<Rightarrow> (Inl msg, wg)
      | (Inr None, wg) \<Rightarrow> handleReconciliation_loop http rest reconciliationResults wg
      | (Inr (Some expectedState), wg) \<Rightarrow>
          (case fetchGatewayListItems http listId None wg of
             (currentItemsResult, w1) \<Rightarrow>
               if \<not> ir_success currentItemsResult then
                 handleReconciliation_loop http rest reconciliationResults w1
               else
                 handleReconciliation_loop http rest
                   (reconciliationResults
                      @ [reconciliation_entry_of listId listName expectedState currentItemsResult])
                   w1))"

text \<open>
  The body of the response: \<open>{ success: true, timestamp, reconciliation }\<close>, or from the
  catch \<open>{ success: false, error }\<close> with status 500.
\<close>

record reconciliation_response =
  rc_success :: bool
  rc_timestamp :: "timestamp option"
  rc_reconciliation :: "reconciliation_entry list option"
  rc_error :: "string option"

definition handleReconciliation ::
  "env \<Rightarrow> list_id \<Rightarrow> list_id \<Rightarrow> list_id \<Rightarrow> timestamp \<Rightarrow> world
     \<Rightarrow> reconciliation_response \<times> world" where
  "handleReconciliation http highRiskListId mediumRiskListId lowRiskListId now w =
     (case handleReconciliation_loop http
             [(highRiskListId, ''high''), (mediumRiskListId, ''medium''),
              (lowRiskListId, ''low'')] [] w of
        (Inr reconciliationResults, w') \<Rightarrow>
          (\<lparr>rc_success = True, rc_timestamp = Some now,
            rc_reconciliation = Some reconciliationResults, rc_error = None\<rparr>, w')
      | (Inl msg, w') \<Rightarrow>
          (\<lparr>rc_success = False, rc_timestamp = None, rc_reconciliation = None,
            rc_error = Some msg\<rparr>, w'))"

section \<open>Reading the log\<close>

text \<open>What a run appended to the log.\<close>

definition since :: "world \<Rightarrow> world \<Rightarrow> effect list" where
  "since w w' = drop (length (log w)) (log w')"

definition is_fetch :: "effect \<Rightarrow> bool" where
  "is_fetch e = (case e of Fetch r \<Rightarrow> True | _ \<Rightarrow> False)"

definition is_api_call :: "effect \<Rightarrow> bool" where
  "is_api_call e = (case e of ApiCall r \<Rightarrow> True | _ \<Rightarrow> False)"

text \<open>An effect that writes: a KV put, or an HTTP request whose method is not GET.\<close>

definition mutates :: "effect \<Rightarrow> bool" where
  "mutates e =
     (case e of
        KVPut k v ttl \<Rightarrow> True
      | Fetch r \<Rightarrow> req_method r \<noteq> GET
      | ApiCall r \<Rightarrow> req_method r \<noteq> GET
      | _ \<Rightarrow> False)"

text \<open>The log of a request that is answered with 429 on each of the attempts a to m.\<close>

definition rate_limited_trace ::
  "request \<Rightarrow> (nat \<Rightarrow> response) \<Rightarrow> nat \<Rightarrow> nat \<Rightarrow> effect list" where
  "rate_limited_trace req rs a m =
     concat (map (\<lambda>i. [Fetch req, Sleep (retryAfter (rs i) i)]) [a..<Suc m])"

section \<open>The full-replace path: updateGatewayList\<close>

text \<open>The fields of the objects updateGatewayList returns that the model reads.\<close>

record update_result =
  ur_success :: bool
  ur_errors :: "string list option"
  ur_removed :: "nat option"
  ur_added :: "nat option"
  ur_reconciliationNeeded :: "bool option"
  ur_apiInconsistent :: "bool option"

text \<open>
  \<open>{ success: false, errors }\<close>: \<open>errors\<close> is the \<open>errors\<close> of a response, the one message
  of a caught exception, or absent.
\<close>

definition update_failed :: "string list option \<Rightarrow> update_result" where
  "update_failed errs =
     \<lparr>ur_success = False, ur_errors = errs, ur_removed = None, ur_added = None,
      ur_reconciliationNeeded = None, ur_apiInconsistent = None\<rparr>"

definition listInfoRequest :: "list_id \<Rightarrow> request" where
  "listInfoRequest listId =
     \<lparr>req_method = GET, req_target = ListResource listId, req_body = NoBody\<rparr>"

definition putRequest :: "list_id \<Rightarrow> string option \<Rightarrow> string \<Rightarrow> list_item list \<Rightarrow> request" where
  "putRequest listId name description its =
     \<lparr>req_method = PUT, req_target = ListResource listId,
      req_body = PutBody name description its\<rparr>"

text \<open>
  \<open>listInfo.name\<close> and \<open>listInfo.description || ''\<close>, where \<open>listInfo\<close> is the \<open>result\<close> of the
  list resource. Reading a property of an absent result throws; a result of another
  shape has no name and no description.
\<close>

definition listInfo_name :: "result_payload \<Rightarrow> string + string option" where
  "listInfo_name p =
     (case p of
        NoResult \<Rightarrow> Inl ''Cannot read properties of undefined (reading 'name')''
      | ListInfoResult n d \<Rightarrow> Inr (Some n)
      | _ \<Rightarrow> Inr None)"

definition listInfo_description :: "result_payload \<Rightarrow> string" where
  "listInfo_description p =
     (case p of ListInfoResult n d \<Rightarrow> (case d of None \<Rightarrow> [] | Some x \<Rightarrow> x) | _ \<Rightarrow> [])"

text \<open>
  \<open>targetEmails.length\<close>, where \<open>targetEmails\<close> is a \<open>Set\<close>: a \<open>Set\<close> has a \<open>size\<close> and no
  \<open>length\<close>, so the property is \<open>undefined\<close>.
\<close>

definition Set_length :: "'a list \<Rightarrow> int option" where
  "Set_length s = None"

text \<open>
  Step 2 of updateGatewayList: \<open>if (targetEmails.length > 0)\<close> wait three seconds and PUT
  the target items. The result is \<open>Some errs\<close> when the function returns
  \<open>{ success: false, errors }\<close> from here (or from the catch), \<open>None\<close> when it goes on.
\<close>

definition updateGatewayList_add ::
  "env \<Rightarrow> list_id \<Rightarrow> string option \<Rightarrow> string \<Rightarrow> email list \<Rightarrow> string \<Rightarrow> world
     \<Rightarrow> string list option option \<times> world" where
  "updateGatewayList_add http listId name description targetEmails today w =
     (if js_less (Some 0) (Set_length targetEmails) then
        (let targetItems =
               map (\<lambda>email. \<lparr>item_value = email,
                               item_description = ''Risk-based user - updated '' @ today\<rparr>)
                 targetEmails
         in
           case makeApiRequest http (putRequest listId name description targetItems) 3
                  (emit (Sleep (Millis 3000)) w) of
             (addResult, w1) \<Rightarrow>
               (case json_of addResult of
                  Inl msg \<Rightarrow> (Some (Some [msg]), w1)
                | Inr addData \<Rightarrow>
                    if \<not> data_success addData then (Some (Some (data_errors addData)), w1)
                    else (None, w1)))
      else (None, w))"

text \<open>
  Step 4 of updateGatewayList: wait three seconds, fetch the list again and, under
  \<open>if (verifyResult.success)\<close>, compare it with the target; when they differ, put the
  new state again with \<open>reconciliationNeeded: true\<close> and \<open>lastReconciliationAttempt\<close>
  (\<open>expirationTtl: 86400 * 7\<close>). \<open>Inr\<close> carries the local \<open>reconciliationNeeded\<close>, \<open>Inl\<close>
  the message of an exception.
\<close>

definition updateGatewayList_verify ::
  "env \<Rightarrow> list_id \<Rightarrow> email list \<Rightarrow> stored_state \<Rightarrow> timestamp \<Rightarrow> world
     \<Rightarrow> (string + bool) \<times> world" where
  "updateGatewayList_verify http listId targetEmails newExpectedState t3 w =
     (case fetchGatewayListItems http listId None (emit (Sleep (Millis 3000)) w) of
        (verifyResult, w1) \<Rightarrow>
          if ir_success verifyResult then
            (let actualEmails = new_Set (map item_value (ir_items verifyResult));
                 expectedEmails = new_Set targetEmails
             in
               if \<not> setsEqual actualEmails expectedEmails then
                 (case kv_put (kvKey listId)
                         (newExpectedState\<lparr>reconciliationNeeded := Some True,
                                            lastReconciliationAttempt := Some t3\<rparr>)
                         (Some (86400 * 7)) w1 of
                    (Some msg, w2) \<Rightarrow> (Inl msg, w2)
                  | (None, w2) \<Rightarrow> (Inr True, w2))
               else (Inr False, w1))
          else (Inr False, w1))"

text \<open>
  updateGatewayList after the test of \<open>currentItemsResult.success\<close>: the two differences,
  the early return when nothing is to do, step 1 (PUT with no items), step 2, step 3
  (put the new state in KV) and step 4. \<open>today\<close> is the date in the item descriptions;
  \<open>t1\<close>, \<open>t2\<close>, \<open>t3\<close> are the readings of the clock for \<open>lastUpdated\<close>, \<open>lastAttempt\<close> and
  \<open>lastReconciliationAttempt\<close>.
\<close>

definition updateGatewayList_replace ::
  "env \<Rightarrow> list_id \<Rightarrow> user list \<Rightarrow> stored_state \<Rightarrow> api_data \<Rightarrow> items_result
     \<Rightarrow> string \<Rightarrow> timestamp \<Rightarrow> timestamp \<Rightarrow> timestamp \<Rightarrow> world \<Rightarrow> update_result \<times> world" where
  "updateGatewayList_replace http listId users expectedState currentListData currentItemsResult
       today t1 t2 t3 w =
     (let listInfo = data_result currentListData;
          currentEmails = new_Set (map item_value (ir_items currentItemsResult));
          targetEmails = new_Set (map user_email users);
          expectedEmails = new_Set (emails expectedState);
          toAdd = emailsToAdd targetEmails currentEmails;
          toRemove = emailsToRemove targetEmails currentEmails;
          apiInconsistent = (\<not> setsEqual currentEmails expectedEmails)
      in
        if toAdd = [] \<and> toRemove = [] \<and> \<not> apiInconsistent then
          (\<lparr>ur_success = True, ur_errors = None, ur_removed = Some 0, ur_added = Some 0,
            ur_reconciliationNeeded = None, ur_apiInconsistent = None\<rparr>, w)
        else
          (case listInfo_name listInfo of
             Inl msg \<Rightarrow> (update_failed (Some [msg]), w)
           | Inr name \<Rightarrow>
               (case makeApiRequest http
                       (putRequest listId name (listInfo_description listInfo) []) 3 w of
                  (clearResult, w1) \<Rightarrow>
                    (case json_of clearResult of
                       Inl msg \<Rightarrow> (update_failed (Some [msg]), w1)
                     | Inr clearData \<Rightarrow>
                         if \<not> data_success clearData then
                           (update_failed (Some (data_errors clearData)), w1)
                         else
                           (case updateGatewayList_add http listId name
                                   (listInfo_description listInfo) targetEmails today w1 of
                              (Some errs, w2) \<Rightarrow> (update_failed errs, w2)
                            | (None, w2) \<Rightarrow>
                                (let newExpectedState =
                                       \<lparr>emails = targetEmails, riskLevel = None,
                                        lastUpdated = Some t1, userCount = None,
                                        lastAttempt = Some t2, reconciliationNeeded = None,
                                        lastReconciliationAttempt = None\<rparr>
                                 in
                                   case kv_put (kvKey listId) newExpectedState
                                          (Some (86400 * 7)) w2 of
                                     (Some msg, w3) \<Rightarrow> (update_failed (Some [msg]), w3)
                                   | (None, w3) \<Rightarrow>
                                       (case updateGatewayList_verify http listId targetEmails
                                               newExpectedState t3 w3 of
                                          (Inl msg, w4) \<Rightarrow> (update_failed (Some [msg]), w4)
                                        | (Inr needed, w4) \<Rightarrow>
                                            (\<lparr>ur_success = True, ur_errors = None,
                                              ur_removed = Some (length toRemove),
                                              ur_added = Some (length toAdd),
                                              ur_reconciliationNeeded = Some needed,
                                              ur_apiInconsistent = Some apiInconsistent\<rparr>,
                                             w4))))))))"

text \<open>
  updateGatewayList: read the state from KV (\<open>{ emails: [], lastUpdated: null }\<close> when
  there is none), GET the list resource, fetch the items, test
  \<open>currentItemsResult.success\<close>, and go on with the code above. An exception anywhere is
  caught and returned as \<open>{ success: false, errors: [{ message }] }\<close>.
\<close>

definition updateGatewayList ::
  "env \<Rightarrow> list_id \<Rightarrow> user list \<Rightarrow> string \<Rightarrow> timestamp \<Rightarrow> timestamp \<Rightarrow> timestamp \<Rightarrow> world
     \<Rightarrow> update_result \<times> world" where
  "updateGatewayList http listId users today t1 t2 t3 w =
     (case kv_get (kvKey listId) w of
        (Inl msg, wg) \<Rightarrow> (update_failed (Some [msg]), wg)
      | (Inr expectedStateStr, wg) \<Rightarrow>
          (let expectedState =
                 (case expectedStateStr of
                    Some st \<Rightarrow> st
                  | None \<Rightarrow>
                      \<lparr>emails = [], riskLevel = None, lastUpdated = None, userCount = None,
                       lastAttempt = None, reconciliationNeeded = None,
                       lastReconciliationAttempt = None\<rparr>)
           in
             case makeApiRequest http (listInfoRequest listId) 3 wg of
               (currentListResponse, w1) \<Rightarrow>
                 (case json_of currentListResponse of
                    Inl msg \<Rightarrow> (update_failed (Some [msg]), w1)
                  | Inr currentListData \<Rightarrow>
                      if \<not> data_success currentListData then
                        (update_failed (Some (data_errors currentListData)), w1)
                      else
                        (case fetchGatewayListItems http listId None w1 of
                           (currentItemsResult, w2) \<Rightarrow>
                             if \<not> ir_success currentItemsResult then
                               (update_failed None, w2)
                             else
                               updateGatewayList_replace http listId users expectedState
                                 currentListData currentItemsResult today t1 t2 t3 w2))))"

text \<open>
  The drift flag of a list as handleReconciliation reports it:
  \<open>expectedState.reconciliationNeeded || false\<close>, and false when there is no snapshot.
\<close>

definition drift_flag :: "world \<Rightarrow> list_id \<Rightarrow> bool" where
  "drift_flag w listId =
     (case kv w (kvKey listId) of
        None \<Rightarrow> False
      | Some st \<Rightarrow> (case reconciliationNeeded st of None \<Rightarrow> False | Some b \<Rightarrow> b))"

text \<open>A put to the key would be accepted: the binding is there and does not reject it.\<close>

definition put_accepted :: "world \<Rightarrow> string \<Rightarrow> bool" where
  "put_accepted w k = (case USER_RISK_KV w of None \<Rightarrow> False | Some ns \<Rightarrow> put_error ns k = None)"

section \<open>Runs and traces\<close>

text \<open>
  \<open>run Q w w'\<close>: the world \<open>w'\<close> is \<open>w\<close> with a trace appended to the log that satisfies
  \<open>Q\<close>; in particular the KV map of \<open>w'\<close> is that of \<open>w\<close>.
\<close>

definition run :: "(effect list \<Rightarrow> bool) \<Rightarrow> world \<Rightarrow> world \<Rightarrow> bool" where
  "run Q w w' = (\<exists>tr. w' = w\<lparr>log := log w @ tr\<rparr> \<and> Q tr)"

text \<open>The effects of the attempts of one request: fetches of it and waits.\<close>

definition transport_event :: "request \<Rightarrow> effect \<Rightarrow> bool" where
  "transport_event req e = (case e of Fetch r \<Rightarrow> r = req | Sleep d \<Rightarrow> True | _ \<Rightarrow> False)"

definition transport_trace :: "request \<Rightarrow> nat \<Rightarrow> effect list \<Rightarrow> bool" where
  "transport_trace req n tr =
     (list_all (transport_event req) tr \<and> length (filter is_fetch tr) \<le> n)"

text \<open>The trace of one call of makeApiRequest with at most n attempts.\<close>

definition api_trace :: "request \<Rightarrow> nat \<Rightarrow> effect list \<Rightarrow> bool" where
  "api_trace req n tr =
     (case tr of [] \<Rightarrow> False | e # tr' \<Rightarrow> e = ApiCall req \<and> transport_trace req n tr')"

text \<open>
  A trace with at most n calls of makeApiRequest, at most 3 n fetches and no write.
\<close>

definition bounded_reads :: "nat \<Rightarrow> effect list \<Rightarrow> bool" where
  "bounded_reads n tr =
     (length (filter is_api_call tr) \<le> n \<and> length (filter is_fetch tr) \<le> 3 * n
        \<and> list_all (\<lambda>e. \<not> mutates e) tr)"

text \<open>
  What \<open>(await makeApiRequest(url, options)).json()\<close> yields for a request under the
  default of three attempts. The world only collects the log, so the reply is the same
  in every world.
\<close>

definition page_reply :: "env \<Rightarrow> request \<Rightarrow> string + api_data" where
  "page_reply http req = json_of (fst (makeApiRequest http req 3 \<lparr>USER_RISK_KV = None, log = []\<rparr>))"

text \<open>What a page reply tells the pagination loops.\<close>

definition risk_page_ok :: "string + api_data \<Rightarrow> bool" where
  "risk_page_ok reply = (case reply of Inl msg \<Rightarrow> False | Inr d \<Rightarrow> data_success d)"

definition items_page_ok :: "string + api_data \<Rightarrow> bool" where
  "items_page_ok reply =
     (case reply of
        Inl msg \<Rightarrow> False
      | Inr d \<Rightarrow>
          data_success d
            \<and> (case result_items (data_result d) of Inl msg \<Rightarrow> False | Inr its \<Rightarrow> True))"

definition reports_more :: "string + api_data \<Rightarrow> bool" where
  "reports_more reply =
     (case reply of Inl msg \<Rightarrow> False | Inr d \<Rightarrow> js_less (data_page d) (data_total_pages d))"

text \<open>The reply carries both numbers and \<open>page >= total_pages\<close>.\<close>

definition reports_last :: "string + api_data \<Rightarrow> bool" where
  "reports_last reply =
     (case reply of
        Inl msg \<Rightarrow> False
      | Inr d \<Rightarrow>
          (case data_page d of
             None \<Rightarrow> False
           | Some p \<Rightarrow> (case data_total_pages d of None \<Rightarrow> False | Some t \<Rightarrow> t \<le> p)))"

text \<open>The calls of makeApiRequest in a trace, and the calls for the pages a to k.\<close>

definition api_calls :: "effect list \<Rightarrow> effect list" where
  "api_calls tr = filter is_api_call tr"

definition page_calls :: "(nat \<Rightarrow> request) \<Rightarrow> nat \<Rightarrow> nat \<Rightarrow> effect list" where
  "page_calls mk a k = map (\<lambda>p. ApiCall (mk p)) [a..<Suc k]"

text \<open>
  The remote list store as the claims assume it: only a fetched request whose method is
  not GET changes it; a PATCH of a list applies its body, a PUT of a list replaces the
  items. \<open>remote_after tr store\<close> is the store after the effects of a trace.
\<close>

definition remote_step ::
  "(list_id \<Rightarrow> list_item list) \<Rightarrow> effect \<Rightarrow> (list_id \<Rightarrow> list_item list)" where
  "remote_step store e =
     (case e of
        Fetch r \<Rightarrow>
          (case req_target r of
             ListResource l \<Rightarrow>
               (case req_method r of
                  PATCH \<Rightarrow> store(l := remote_apply_patch (req_body r) (store l))
                | PUT \<Rightarrow>
                    (case req_body r of
                       PutBody n d its \<Rightarrow> store(l := its)
                     | _ \<Rightarrow> store)
                | _ \<Rightarrow> store)
           | _ \<Rightarrow> store)
      | _ \<Rightarrow> store)"

definition remote_after ::
  "effect list \<Rightarrow> (list_id \<Rightarrow> list_item list) \<Rightarrow> (list_id \<Rightarrow> list_item list)" where
  "remote_after tr store = foldl remote_step store tr"

text \<open>
  The items a successful page of list items delivers, and the items of the pages before
  page k.
\<close>

definition page_items :: "env \<Rightarrow> list_id \<Rightarrow> nat \<Rightarrow> list_item list" where
  "page_items http listId p =
     (case page_reply http (listItemsRequest listId p) of
        Inl msg \<Rightarrow> []
      | Inr d \<Rightarrow> (case result_items (data_result d) of Inl msg \<Rightarrow> [] | Inr its \<Rightarrow> its))"

definition collected_before :: "env \<Rightarrow> list_id \<Rightarrow> nat \<Rightarrow> nat \<Rightarrow> list_item list" where
  "collected_before http listId a k = concat (map (page_items http listId) [a..<k])"

section \<open>Environments and worlds for concrete runs\<close>

text \<open>The world of a first run: the namespace is bound, empty and accepts every put.\<close>

definition w0 :: world where
  "w0 = \<lparr>USER_RISK_KV = Some \<lparr>entries = (\<lambda>k. None), put_error = (\<lambda>k. None)\<rparr>, log = []\<rparr>"

definition rq :: request where
  "rq = \<lparr>req_method = GET, req_target = ListResource ''l'', req_body = NoBody\<rparr>"

text \<open>Every attempt is answered with 429; the second answer carries Retry-After: 7.\<close>

definition rate_limited :: "nat \<Rightarrow> response" where
  "rate_limited attempt =
     \<lparr>status = 429, retry_after = (if attempt = 2 then Some ''7'' else None),
      json = Inl ''rate limited''\<rparr>"

definition always429 :: env where
  "always429 req attempt = Response (rate_limited attempt)"

text \<open>Every attempt is answered with 503 and an error document.\<close>

definition unavailable :: "nat \<Rightarrow> response" where
  "unavailable attempt =
     \<lparr>status = 503, retry_after = None,
      json = Inr \<lparr>data_success = False, data_errors = [''unavailable''],
                  data_result = NoResult, data_page = None, data_total_pages = None\<rparr>\<rparr>"

definition always503 :: env where
  "always503 req attempt = Response (unavailable attempt)"

text \<open>
  A source with two pages of users and two pages of list items, each answered with 200
  at the first attempt.
\<close>

definition page_of :: "result_payload \<Rightarrow> nat \<Rightarrow> int \<Rightarrow> response" where
  "page_of payload p n =
     \<lparr>status = 200, retry_after = None,
      json = Inr \<lparr>data_success = True, data_errors = [], data_result = payload,
                  data_page = Some (int p), data_total_pages = Some n\<rparr>\<rparr>"

definition alice :: user where
  "alice = \<lparr>user_email = ''a@x.com'', max_risk_level = ''high''\<rparr>"

definition bob :: user where
  "bob = \<lparr>user_email = ''b@x.com'', max_risk_level = ''low''\<rparr>"

definition carol :: user where
  "carol = \<lparr>user_email = ''c@x.com'', max_risk_level = ''medium''\<rparr>"

definition item :: "email \<Rightarrow> list_item" where
  "item e = \<lparr>item_value = e, item_description = ''''\<rparr>"

definition two_pages :: env where
  "two_pages req attempt =
     (case req_target req of
        RiskSummaryPage p n \<Rightarrow>
          Response (page_of (UsersResult (if p = 1 then [alice, bob] else [carol])) p 2)
      | ListItemsPage l p n \<Rightarrow>
          Response (page_of (ItemsResult (if p = 1 then [item ''b@x.com''] else [item ''c@x.com''])) p 2)
      | ListResource l \<Rightarrow> Response (page_of NoResult 1 1))"

text \<open>A source whose every page says that one more page follows.\<close>

definition endless :: env where
  "endless req attempt =
     (case req_target req of
        RiskSummaryPage p n \<Rightarrow> Response (page_of (UsersResult []) p (int p + 1))
      | ListItemsPage l p n \<Rightarrow> Response (page_of (ItemsResult []) p (int p + 1))
      | ListResource l \<Rightarrow> Response (page_of NoResult 1 1))"

text \<open>What a PATCH body asks the remote store to add and to remove.\<close>

definition patch_append_values :: "body \<Rightarrow> email list" where
  "patch_append_values b =
     (case b of
        PatchBody app rem \<Rightarrow> map item_value (case app of None \<Rightarrow> [] | Some a \<Rightarrow> a)
      | _ \<Rightarrow> [])"

definition patch_remove_values :: "body \<Rightarrow> email list" where
  "patch_remove_values b =
     (case b of PatchBody app rem \<Rightarrow> (case rem of None \<Rightarrow> [] | Some r \<Rightarrow> r) | _ \<Rightarrow> [])"

text \<open>
  Names for what syncGatewayListFromKV computes on the way: the result of its fetch
  (step 2), the world after that fetch, the two difference lists (step 3) and the PATCH
  request (step 4).
\<close>

definition sync_fetched :: "env \<Rightarrow> list_id \<Rightarrow> world \<Rightarrow> items_result" where
  "sync_fetched http listId w =
     fst (fetchGatewayListItems http listId None (emit (KVGet (kvKey listId)) w))"

definition sync_after_fetch :: "env \<Rightarrow> list_id \<Rightarrow> world \<Rightarrow> world" where
  "sync_after_fetch http listId w =
     snd (fetchGatewayListItems http listId None (emit (KVGet (kvKey listId)) w))"

definition sync_toAdd :: "stored_state \<Rightarrow> items_result \<Rightarrow> email list" where
  "sync_toAdd st r = emailsToAdd (new_Set (emails st)) (new_Set (map item_value (ir_items r)))"

definition sync_toRemove :: "stored_state \<Rightarrow> items_result \<Rightarrow> email list" where
  "sync_toRemove st r =
     emailsToRemove (new_Set (emails st)) (new_Set (map item_value (ir_items r)))"

definition sync_patch :: "list_id \<Rightarrow> stored_state \<Rightarrow> items_result \<Rightarrow> request" where
  "sync_patch listId st r =
     patchRequest listId (patchBody st (sync_toAdd st r) (sync_toRemove st r))"

text \<open>
  A remote list that holds b@x.com and c@x.com on one page and accepts every PATCH, and
  a world whose snapshot for that list, written by storeExpectedStateInKV, holds a@x.com
  and b@x.com.
\<close>

definition remote_bc :: env where
  "remote_bc req attempt =
     (case req_target req of
        RiskSummaryPage p n \<Rightarrow> Response (page_of (UsersResult [alice, bob]) p 1)
      | ListItemsPage l p n \<Rightarrow>
          Response (page_of (ItemsResult [item ''b@x.com'', item ''c@x.com'']) p 1)
      | ListResource l \<Rightarrow> Response (page_of NoResult 1 1))"

definition st_ab :: stored_state where
  "st_ab = expectedStateOf [alice, bob] ''high'' ''2024-01-01T00:00:00.000Z''"

definition w_ab :: world where
  "w_ab = snd (storeExpectedStateInKV ''l'' [alice, bob] ''high'' ''2024-01-01T00:00:00.000Z'' w0)"

text \<open>The same list after the PATCH of the first cycle: b@x.com and a@x.com.\<close>

definition remote_ba :: env where
  "remote_ba req attempt =
     (case req_target req of
        RiskSummaryPage p n \<Rightarrow> Response (page_of (UsersResult [alice, bob]) p 1)
      | ListItemsPage l p n \<Rightarrow>
          Response (page_of (ItemsResult [item ''b@x.com'', item ''a@x.com'']) p 1)
      | ListResource l \<Rightarrow> Response (page_of NoResult 1 1))"




text \<open>
  A list whose first page holds b@x.com and announces a second page; the request for the
  second page fails with a network error at every attempt (\<open>flaky\<close>), or is answered
  with 403 and \<open>success: false\<close> (\<open>refusing\<close>).
\<close>

definition refused :: response where
  "refused =
     \<lparr>status = 403, retry_after = None,
      json = Inr \<lparr>data_success = False, data_errors = [''forbidden''],
                  data_result = NoResult, data_page = None, data_total_pages = None\<rparr>\<rparr>"

definition flaky :: env where
  "flaky req attempt =
     (case req_target req of
        RiskSummaryPage p n \<Rightarrow> Response (page_of (UsersResult []) p 1)
      | ListItemsPage l p n \<Rightarrow>
          if p = 1 then Response (page_of (ItemsResult [item ''b@x.com'']) 1 2)
          else NetworkError ''connection reset''
      | ListResource l \<Rightarrow> Response (page_of NoResult 1 1))"

definition refusing :: env where
  "refusing req attempt =
     (case req_target req of
        RiskSummaryPage p n \<Rightarrow> Response (page_of (UsersResult []) p 1)
      | ListItemsPage l p n \<Rightarrow>
          if p = 1 then Response (page_of (ItemsResult [item ''b@x.com'']) 1 2)
          else Response refused
      | ListResource l \<Rightarrow> Response (page_of NoResult 1 1))"


section \<open>Properties of the retrying transport\<close>

lemma makeApiRequest_from_429:
  assumes "\<And>a. http req a = Response (rs a) \<and> status (rs a) = 429"
  shows "makeApiRequest_from http req m a w =
     (ReturnedUndefined, w\<lparr>log := log w @ rate_limited_trace req rs a m\<rparr>)"
proof (induction "Suc m - a" arbitrary: a w)
  case 0
  then have "\<not> a \<le> m" by simp
  then show ?case
    by (simp add: makeApiRequest_from.simps [of http req m a w] rate_limited_trace_def)
next
  case (Suc n)
  then have le: "a \<le> m" and n: "n = Suc m - Suc a" by simp_all
  have up: "[a..<Suc m] = a # [Suc a..<Suc m]"
    using le by (simp add: upt_conv_Cons)
  show ?case
    using le assms [of a] Suc.hyps(1) [OF n]
    by (simp add: makeApiRequest_from.simps [of http req m a w] rate_limited_trace_def up
        emit_def del: upt_Suc)
qed

lemma makeApiRequest_429:
  assumes "\<forall>a. http req a = Response (rs a) \<and> status (rs a) = 429"
  shows "makeApiRequest http req maxRetries w =
      (ReturnedUndefined,
       w\<lparr>log := log w @ ApiCall req # rate_limited_trace req rs 1 maxRetries\<rparr>)"
  using makeApiRequest_from_429 [of http req rs maxRetries 1 "emit (ApiCall req) w"] assms
  by (simp add: makeApiRequest_def emit_def)

lemma run_nil: "Q [] \<Longrightarrow> run Q w w"
  unfolding run_def by (intro exI [of _ "[]"]) simp

lemma run_emit: "Q [e] \<Longrightarrow> run Q w (emit e w)"
  unfolding run_def by (intro exI [of _ "[e]"]) (simp add: emit_def)

lemma run_seq:
  assumes "run Q1 w w1" and "run Q2 w1 w2" and "\<And>a b. Q1 a \<Longrightarrow> Q2 b \<Longrightarrow> Q (a @ b)"
  shows "run Q w w2"
proof -
  obtain a where a: "w1 = w\<lparr>log := log w @ a\<rparr>" "Q1 a"
    using assms(1) unfolding run_def by blast
  obtain b where b: "w2 = w1\<lparr>log := log w1 @ b\<rparr>" "Q2 b"
    using assms(2) unfolding run_def by blast
  have "w2 = w\<lparr>log := log w @ (a @ b)\<rparr>"
    using a(1) b(1) by simp
  then show ?thesis
    unfolding run_def using assms(3) [OF a(2) b(2)] by blast
qed

lemma run_weaken: "run Q w w' \<Longrightarrow> (\<And>tr. Q tr \<Longrightarrow> Q' tr) \<Longrightarrow> run Q' w w'"
  unfolding run_def by blast

lemma run_since: "run Q w w' \<Longrightarrow> Q (since w w')"
  unfolding run_def since_def by auto

lemma run_binding: "run Q w w' \<Longrightarrow> USER_RISK_KV w' = USER_RISK_KV w"
  unfolding run_def by auto

lemma run_kv: "run Q w w' \<Longrightarrow> kv w' = kv w"
  unfolding kv_def by (simp add: run_binding)

lemma kv_emit: "kv (emit e w) = kv w"
  by (simp add: kv_def emit_def)

text \<open>A get through the binding reads the key and changes nothing but the log.\<close>

lemma kv_get_Some: "kv w k = Some st \<Longrightarrow> kv_get k w = (Inr (Some st), emit (KVGet k) w)"
  by (auto simp: kv_def kv_get_def split: option.splits)

lemma kv_get_cases:
  "(\<exists>msg. kv_get k w = (Inl msg, w)) \<or> kv_get k w = (Inr (kv w k), emit (KVGet k) w)"
  by (simp add: kv_def kv_get_def split: option.splits)

lemma kv_get_run: "run (\<lambda>tr. tr = [] \<or> tr = [KVGet k]) w (snd (kv_get k w))"
  by (cases "USER_RISK_KV w") (simp_all add: kv_get_def run_nil run_emit)

text \<open>A put that is accepted stores the value; one that throws stores nothing.\<close>

lemma kv_put_accepted:
  "put_accepted w k \<Longrightarrow> fst (kv_put k v ttl w) = None
     \<and> kv (snd (kv_put k v ttl w)) = (kv w)(k \<mapsto> v)"
  by (auto simp: put_accepted_def kv_put_def kv_def emit_def split: option.splits)

lemma kv_put_thrown:
  "\<not> put_accepted w k \<Longrightarrow> fst (kv_put k v ttl w) \<noteq> None \<and> kv (snd (kv_put k v ttl w)) = kv w"
  by (auto simp: put_accepted_def kv_put_def kv_def emit_def split: option.splits)

lemma put_accepted_kv_put: "put_accepted (snd (kv_put k v ttl w)) k' = put_accepted w k'"
  by (auto simp: put_accepted_def kv_put_def emit_def split: option.splits)

lemma put_accepted_run: "run Q w w' \<Longrightarrow> put_accepted w' k = put_accepted w k"
  by (simp add: put_accepted_def run_binding)

lemma put_accepted_w0: "put_accepted w0 k"
  by (simp add: put_accepted_def w0_def)

lemma makeApiRequest_from_effects:
  "run (transport_trace req (Suc m - a)) w (snd (makeApiRequest_from http req m a w))"
proof (induction "Suc m - a" arbitrary: a w)
  case 0
  then have "\<not> a \<le> m" by simp
  then show ?case
    by (simp add: makeApiRequest_from.simps [of http req m a w] run_nil transport_trace_def)
next
  case (Suc n)
  then have le: "a \<le> m" and n: "n = Suc m - Suc a" and sn: "Suc m - a = Suc n"
    by simp_all
  have one: "run (transport_trace req (Suc n)) w (emit (Fetch req) w)"
    by (rule run_emit) (simp add: transport_trace_def transport_event_def is_fetch_def)
  have more: "run (transport_trace req (Suc n)) w
      (snd (makeApiRequest_from http req m (Suc a) (emit (Sleep d) (emit (Fetch req) w))))" for d
  proof (rule run_seq)
    show "run (\<lambda>tr. tr = [Fetch req, Sleep d]) w (emit (Sleep d) (emit (Fetch req) w))"
      unfolding run_def by (simp add: emit_def)
    show "run (transport_trace req n) (emit (Sleep d) (emit (Fetch req) w))
        (snd (makeApiRequest_from http req m (Suc a) (emit (Sleep d) (emit (Fetch req) w))))"
      using Suc.hyps(1) [OF n] n by simp
    show "transport_trace req (Suc n) (x @ y)"
      if "x = [Fetch req, Sleep d]" and "transport_trace req n y" for x y
      using that by (simp add: transport_trace_def transport_event_def is_fetch_def)
  qed
  show ?case
    unfolding sn using le more one
    by (subst makeApiRequest_from.simps) (simp split: fetch_outcome.splits)
qed

lemma makeApiRequest_effects:
  "run (api_trace req m) w (snd (makeApiRequest http req m w))"
proof (rule run_seq)
  show "run (\<lambda>tr. tr = [ApiCall req]) w (emit (ApiCall req) w)"
    by (rule run_emit) simp
  show "run (transport_trace req m) (emit (ApiCall req) w) (snd (makeApiRequest http req m w))"
    using makeApiRequest_from_effects [of req m 1 "emit (ApiCall req) w" http]
    by (simp add: makeApiRequest_def)
  show "api_trace req m (x @ y)" if "x = [ApiCall req]" and "transport_trace req m y" for x y
    using that by (simp add: api_trace_def)
qed

lemma makeApiRequest_from_fst:
  "fst (makeApiRequest_from http req m a w) = fst (makeApiRequest_from http req m a w')"
proof (induction "Suc m - a" arbitrary: a w w')
  case 0
  then have "\<not> a \<le> m" by simp
  then show ?case
    by (simp add: makeApiRequest_from.simps [of http req m a])
next
  case (Suc n)
  then have le: "a \<le> m" and n: "n = Suc m - Suc a" by simp_all
  show ?case
    using le Suc.hyps(1) [OF n]
    by (simp add: makeApiRequest_from.simps [of http req m a] split: fetch_outcome.splits)
qed

lemma page_reply_eq: "json_of (fst (makeApiRequest http req 3 w)) = page_reply http req"
  unfolding page_reply_def makeApiRequest_def
  using makeApiRequest_from_fst [of http req 3 1 "emit (ApiCall req) w"
      "emit (ApiCall req) \<lparr>USER_RISK_KV = None, log = []\<rparr>"]
  by simp

lemma api_trace_calls: "api_trace req n tr \<Longrightarrow> filter is_api_call tr = [ApiCall req]"
  unfolding api_trace_def transport_trace_def
  by (cases tr)
    (auto simp: is_api_call_def transport_event_def list_all_iff filter_empty_conv
      split: effect.splits)

lemma api_trace_fetches: "api_trace req n tr \<Longrightarrow> length (filter is_fetch tr) \<le> n"
  unfolding api_trace_def transport_trace_def
  by (cases tr) (auto simp: is_fetch_def)

lemma api_trace_reads:
  "api_trace req n tr \<Longrightarrow> req_method req = GET \<Longrightarrow> list_all (\<lambda>e. \<not> mutates e) tr"
  unfolding api_trace_def transport_trace_def
  by (cases tr) (auto simp: mutates_def transport_event_def list_all_iff split: effect.splits)

lemma bounded_reads_api:
  "api_trace req 3 tr \<Longrightarrow> req_method req = GET \<Longrightarrow> bounded_reads 1 tr"
  unfolding bounded_reads_def
  using api_trace_calls [of req 3 tr] api_trace_fetches [of req 3 tr] api_trace_reads [of req 3 tr]
  by simp

lemma bounded_reads_nil: "bounded_reads n []"
  by (simp add: bounded_reads_def)

lemma bounded_reads_mono: "bounded_reads n tr \<Longrightarrow> n \<le> m \<Longrightarrow> bounded_reads m tr"
  by (simp add: bounded_reads_def)

lemma bounded_reads_append:
  "bounded_reads n a \<Longrightarrow> bounded_reads m b \<Longrightarrow> bounded_reads (n + m) (a @ b)"
  by (simp add: bounded_reads_def)

lemma bounded_reads_sleep: "bounded_reads 0 [Sleep d]"
  by (simp add: bounded_reads_def is_api_call_def is_fetch_def mutates_def)

lemma makeApiRequest_from_5xx:
  assumes "\<And>a. http req a = Response (rs a) \<and> 500 \<le> status (rs a)"
    and "a \<le> m"
  shows "fst (makeApiRequest_from http req m a w) = Returned (rs m)"
  using assms(2)
proof (induction "m - a" arbitrary: a w)
  case 0
  then have "a = m" by simp
  then show ?case
    using assms(1) [of m]
    by (simp add: makeApiRequest_from.simps [of http req m m w])
next
  case (Suc n)
  then have lt: "a < m" and n: "n = m - Suc a" by simp_all
  show ?case
    using lt assms(1) [of a] Suc.hyps(1) [OF n]
    by (simp add: makeApiRequest_from.simps [of http req m a w])
qed

lemma fetches_rate_limited_trace:
  "length (filter is_fetch (rate_limited_trace req rs a m)) = Suc m - a"
proof (induction "Suc m - a" arbitrary: a)
  case 0
  then show ?case by (simp add: rate_limited_trace_def)
next
  case (Suc n)
  then have le: "a \<le> m" and n: "n = Suc m - Suc a" by simp_all
  have up: "[a..<Suc m] = a # [Suc a..<Suc m]"
    using le by (simp add: upt_conv_Cons)
  show ?case
    using Suc.hyps(1) [OF n] le
    by (simp add: rate_limited_trace_def up is_fetch_def del: upt_Suc)
qed

text \<open>
  C4. A request that is answered with 429 on every attempt is attempted exactly
  maxRetries times: the run appends to the log, after the call marker, one fetch and one
  wait for each attempt 1, ..., maxRetries and nothing else. The wait of attempt a is the
  Retry-After header of that answer (times 1000, in milliseconds) when the header is
  there with a non-empty text, and 2 ^ a seconds when it is absent. The code also waits
  after the last attempt.
\<close>

theorem makeApiRequest_rate_limited_attempts:
  assumes "\<forall>attempt. http req attempt = Response (rs attempt) \<and> status (rs attempt) = 429"
  shows "since w (snd (makeApiRequest http req maxRetries w))
           = ApiCall req # rate_limited_trace req rs 1 maxRetries
       \<and> length (filter is_fetch (since w (snd (makeApiRequest http req maxRetries w))))
           = maxRetries
       \<and> (\<forall>a h. retry_after (rs a) = Some h \<and> h \<noteq> [] \<longrightarrow> retryAfter (rs a) a = HeaderSeconds h)
       \<and> (\<forall>a. retry_after (rs a) = None \<longrightarrow> retryAfter (rs a) a = Millis (2 ^ a * 1000))"
proof -
  have tr: "since w (snd (makeApiRequest http req maxRetries w))
      = ApiCall req # rate_limited_trace req rs 1 maxRetries"
    using makeApiRequest_429 [of http req rs maxRetries w] assms by (simp add: since_def)
  have n: "length (filter is_fetch (ApiCall req # rate_limited_trace req rs 1 maxRetries))
      = maxRetries"
    using fetches_rate_limited_trace [of req rs 1 maxRetries] by (simp add: is_fetch_def)
  show ?thesis
    using tr n by (simp add: retryAfter_def)
qed

theorem makeApiRequest_rate_limited_attempts_witness:
  "(\<forall>attempt. always429 rq attempt = Response (rate_limited attempt)
        \<and> status (rate_limited attempt) = 429)
   \<and> since w0 (snd (makeApiRequest always429 rq 3 w0))
      = [ApiCall rq, Fetch rq, Sleep (Millis 2000), Fetch rq, Sleep (HeaderSeconds ''7''),
         Fetch rq, Sleep (Millis 8000)]
   \<and> length (filter is_fetch (since w0 (snd (makeApiRequest always429 rq 3 w0)))) = 3"
  using makeApiRequest_rate_limited_attempts [of always429 rq rate_limited w0 3]
  by (simp add: always429_def rate_limited_def rate_limited_trace_def retryAfter_def
      upt_conv_Cons is_fetch_def)

lemma fetchGatewayListItems_loop_throws:
  assumes "hasMore" and "totalRequests < 50"
    and "json_of (fst (makeApiRequest http (listItemsRequest listId page) 3 w)) = Inl msg"
  shows "fetchGatewayListItems_loop http listId page hasMore totalRequests allItems w =
     (Inl msg, snd (makeApiRequest http (listItemsRequest listId page) 3 w))"
  using assms
  by (subst fetchGatewayListItems_loop.simps) (simp add: case_prod_beta)

lemma fetchGatewayListItems_first_page_throws:
  assumes "json_of (fst (makeApiRequest http (listItemsRequest listId 1) 3 w)) = Inl msg"
  shows "fst (fetchGatewayListItems http listId level w) =
     \<lparr>ir_riskLevel = level, ir_listId = listId, ir_items = [], ir_pagination = None,
      ir_error = Some msg\<rparr>"
  using assms
  by (simp add: fetchGatewayListItems_def fetchGatewayListItems_loop_throws)

text \<open>
  C10. When every attempt is answered with 429, makeApiRequest returns undefined: no
  response and no exception. A caller that calls .json() on that value fails with a
  TypeError; in fetchGatewayListItems the catch block turns it into the error tag. When
  every attempt is answered with a status of 500 or more (and maxRetries is at least 1),
  makeApiRequest returns the response of the last attempt.
\<close>

theorem makeApiRequest_rate_limited_undefined:
  "((\<forall>a. http req a = Response (rs a) \<and> status (rs a) = 429) \<longrightarrow>
      fst (makeApiRequest http req maxRetries w) = ReturnedUndefined
      \<and> json_of (fst (makeApiRequest http req maxRetries w))
          = Inl ''Cannot read properties of undefined (reading 'json')'')
   \<and> ((\<forall>a. http (listItemsRequest listId 1) a = Response (rs a) \<and> status (rs a) = 429) \<longrightarrow>
      ir_error (fst (fetchGatewayListItems http listId level w))
          = Some ''Cannot read properties of undefined (reading 'json')'')
   \<and> ((\<forall>a. http' req a = Response (rs' a) \<and> 500 \<le> status (rs' a)) \<and> 1 \<le> maxRetries \<longrightarrow>
      fst (makeApiRequest http' req maxRetries w) = Returned (rs' maxRetries))"
proof (intro conjI impI)
  assume h: "\<forall>a. http req a = Response (rs a) \<and> status (rs a) = 429"
  show u: "fst (makeApiRequest http req maxRetries w) = ReturnedUndefined"
    using makeApiRequest_429 [of http req rs maxRetries w] h by simp
  show "json_of (fst (makeApiRequest http req maxRetries w))
      = Inl ''Cannot read properties of undefined (reading 'json')''"
    by (simp add: u json_of_def)
next
  assume h: "\<forall>a. http (listItemsRequest listId 1) a = Response (rs a) \<and> status (rs a) = 429"
  have "json_of (fst (makeApiRequest http (listItemsRequest listId 1) 3 w))
      = Inl ''Cannot read properties of undefined (reading 'json')''"
    using makeApiRequest_429 [of http "listItemsRequest listId 1" rs 3 w] h
    by (simp add: json_of_def)
  then show "ir_error (fst (fetchGatewayListItems http listId level w))
      = Some ''Cannot read properties of undefined (reading 'json')''"
    by (simp add: fetchGatewayListItems_first_page_throws)
next
  assume h: "(\<forall>a. http' req a = Response (rs' a) \<and> 500 \<le> status (rs' a)) \<and> 1 \<le> maxRetries"
  then show "fst (makeApiRequest http' req maxRetries w) = Returned (rs' maxRetries)"
    using makeApiRequest_from_5xx [of http' req rs' 1 maxRetries "emit (ApiCall req) w"]
    by (simp add: makeApiRequest_def)
qed

theorem makeApiRequest_rate_limited_undefined_witness:
  "(\<forall>a. always429 rq a = Response (rate_limited a) \<and> status (rate_limited a) = 429)
   \<and> fst (makeApiRequest always429 rq 3 w0) = ReturnedUndefined
   \<and> (\<forall>a. always429 (listItemsRequest ''l'' 1) a = Response (rate_limited a)
          \<and> status (rate_limited a) = 429)
   \<and> ir_error (fst (fetchGatewayListItems always429 ''l'' None w0))
       = Some ''Cannot read properties of undefined (reading 'json')''
   \<and> (\<forall>a. always503 rq a = Response (unavailable a) \<and> 500 \<le> status (unavailable a))
   \<and> fst (makeApiRequest always503 rq 3 w0) = Returned (unavailable 3)"
  using makeApiRequest_rate_limited_undefined
    [of always429 rq rate_limited 3 w0 "''l''" None always503 unavailable]
  by (simp add: always429_def always503_def rate_limited_def unavailable_def)

section \<open>Properties of the paginated fetchers\<close>

lemma riskPageRequest_GET: "req_method (riskPageRequest page) = GET"
  by (simp add: riskPageRequest_def)

lemma listItemsRequest_GET: "req_method (listItemsRequest listId page) = GET"
  by (simp add: listItemsRequest_def)

lemma run_page_request:
  assumes "req_method req = GET"
  shows "run (bounded_reads 1) w (snd (makeApiRequest http req 3 w))"
proof (rule run_weaken [OF makeApiRequest_effects])
  show "bounded_reads 1 tr" if "api_trace req 3 tr" for tr
    using that assms by (rule bounded_reads_api)
qed

lemma run_optional_sleep: "run (bounded_reads 0) w (if b then emit (Sleep d) w else w)"
  by (simp add: run_emit run_nil bounded_reads_sleep bounded_reads_nil)

lemma run_bounded_step:
  assumes "run (bounded_reads 1) w w1" and "run (bounded_reads 0) w1 w2"
    and "run (bounded_reads n) w2 w3"
  shows "run (bounded_reads (Suc n)) w w3"
proof -
  have "run (bounded_reads (1 + 0)) w w2"
    using assms(1,2) by (rule run_seq) (rule bounded_reads_append)
  then have "run (bounded_reads (1 + 0 + n)) w w3"
    using assms(3) by (rule run_seq) (rule bounded_reads_append)
  then show ?thesis by simp
qed

lemma fetchAllUserRiskScores_loop_bounded:
  "run (bounded_reads (100 - n)) w
     (snd (fetchAllUserRiskScores_loop http page hasMore n allUsers w))"
proof (induction "100 - n" arbitrary: page hasMore n allUsers w)
  case 0
  then have "\<not> n < 100" by simp
  then show ?case
    by (subst fetchAllUserRiskScores_loop.simps) (simp add: run_nil bounded_reads_nil)
next
  case (Suc k)
  then have lt: "n < 100" and k: "k = 100 - Suc n" and sk: "100 - n = Suc k"
    by simp_all
  define w1 where "w1 = snd (makeApiRequest http (riskPageRequest page) 3 w)"
  have r1: "run (bounded_reads 1) w w1"
    unfolding w1_def by (rule run_page_request) (rule riskPageRequest_GET)
  have stop: "run (bounded_reads (Suc k)) w w1"
    using r1 by (rule run_weaken) (simp add: bounded_reads_mono)
  have more: "run (bounded_reads (Suc k)) w
      (snd (fetchAllUserRiskScores_loop http p b (Suc n) us
              (if c then emit (Sleep d) w1 else w1)))"
    for p b us c d
    using r1 run_optional_sleep Suc.hyps(1) [OF k] unfolding k by (rule run_bounded_step)
  have more_sleep: "run (bounded_reads (Suc k)) w
      (snd (fetchAllUserRiskScores_loop http p b (Suc n) us
              (emit (Sleep d) (snd (makeApiRequest http (riskPageRequest page) 3 w)))))"
    for p b us d
    using more [of p b us True d] by (simp add: w1_def)
  have more_now: "run (bounded_reads (Suc k)) w
      (snd (fetchAllUserRiskScores_loop http p b (Suc n) us
              (snd (makeApiRequest http (riskPageRequest page) 3 w))))"
    for p b us
    using more [of p b us False] by (simp add: w1_def)
  show ?case
    unfolding sk using lt stop [unfolded w1_def] more_sleep more_now
    by (subst fetchAllUserRiskScores_loop.simps)
      (simp add: run_nil bounded_reads_nil case_prod_beta split: sum.splits)
qed

lemma fetchGatewayListItems_loop_bounded:
  "run (bounded_reads (50 - n)) w
     (snd (fetchGatewayListItems_loop http listId page hasMore n allItems w))"
proof (induction "50 - n" arbitrary: page hasMore n allItems w)
  case 0
  then have "\<not> n < 50" by simp
  then show ?case
    by (subst fetchGatewayListItems_loop.simps) (simp add: run_nil bounded_reads_nil)
next
  case (Suc k)
  then have lt: "n < 50" and k: "k = 50 - Suc n" and sk: "50 - n = Suc k"
    by simp_all
  define w1 where "w1 = snd (makeApiRequest http (listItemsRequest listId page) 3 w)"
  have r1: "run (bounded_reads 1) w w1"
    unfolding w1_def by (rule run_page_request) (rule listItemsRequest_GET)
  have stop: "run (bounded_reads (Suc k)) w w1"
    using r1 by (rule run_weaken) (simp add: bounded_reads_mono)
  have more: "run (bounded_reads (Suc k)) w
      (snd (fetchGatewayListItems_loop http listId p b (Suc n) us
              (if c then emit (Sleep d) w1 else w1)))"
    for p b us c d
    using r1 run_optional_sleep Suc.hyps(1) [OF k] unfolding k by (rule run_bounded_step)
  have more_sleep: "run (bounded_reads (Suc k)) w
      (snd (fetchGatewayListItems_loop http listId p b (Suc n) us
              (emit (Sleep d) (snd (makeApiRequest http (listItemsRequest listId page) 3 w)))))"
    for p b us d
    using more [of p b us True d] by (simp add: w1_def)
  have more_now: "run (bounded_reads (Suc k)) w
      (snd (fetchGatewayListItems_loop http listId p b (Suc n) us
              (snd (makeApiRequest http (listItemsRequest listId page) 3 w))))"
    for p b us
    using more [of p b us False] by (simp add: w1_def)
  show ?case
    unfolding sk using lt stop [unfolded w1_def] more_sleep more_now
    by (subst fetchGatewayListItems_loop.simps)
      (simp add: run_nil bounded_reads_nil case_prod_beta split: sum.splits)
qed

lemma fetchGatewayListItems_snd:
  "snd (fetchGatewayListItems http listId level w)
     = snd (fetchGatewayListItems_loop http listId 1 True 0 [] w)"
  by (simp add: fetchGatewayListItems_def split: prod.splits sum.splits)

lemma fetchGatewayListItems_bounded:
  "run (bounded_reads 50) w (snd (fetchGatewayListItems http listId level w))"
  using fetchGatewayListItems_loop_bounded [of 0 w http listId 1 True "[]"]
  by (simp add: fetchGatewayListItems_snd)

lemma fetchAllUserRiskScores_bounded:
  "run (bounded_reads 100) w (snd (fetchAllUserRiskScores http w))"
  using fetchAllUserRiskScores_loop_bounded [of 0 w http 1 True "[]"]
  by (simp add: fetchAllUserRiskScores_def)

lemma reports_last_not_more: "reports_last reply \<Longrightarrow> \<not> reports_more reply"
  by (auto simp: reports_last_def reports_more_def js_less_def split: sum.splits option.splits)

lemma api_calls_append: "api_calls (a @ b) = api_calls a @ api_calls b"
  by (simp add: api_calls_def)

lemma page_calls_Cons: "a \<le> k \<Longrightarrow> page_calls mk a k = ApiCall (mk a) # page_calls mk (Suc a) k"
  by (simp add: page_calls_def upt_conv_Cons del: upt_Suc)

lemma page_calls_single: "page_calls mk k k = [ApiCall (mk k)]"
  by (simp add: page_calls_def)

lemma run_api_calls_step:
  assumes "run (api_trace req 3) w w1" and "run (bounded_reads 0) w1 w2"
    and "run (\<lambda>tr. api_calls tr = cs) w2 w3"
  shows "run (\<lambda>tr. api_calls tr = ApiCall req # cs) w w3"
proof -
  have "run (\<lambda>tr. api_calls tr = [ApiCall req]) w w2"
    using assms(1,2)
  proof (rule run_seq)
    show "api_calls (a @ b) = [ApiCall req]" if "api_trace req 3 a" and "bounded_reads 0 b" for a b
      using that api_trace_calls [of req 3 a]
      by (simp add: api_calls_def bounded_reads_def)
  qed
  then show ?thesis
    using assms(3) by (rule run_seq) (simp add: api_calls_append)
qed

lemma fetchAllUserRiskScores_loop_exit:
  assumes "\<not> (hasMore \<and> n < 100)"
  shows "fetchAllUserRiskScores_loop http page hasMore n allUsers w =
     (\<lparr>rr_success = True, rr_users = Some allUsers, rr_errors = None,
       rr_pagination = Some (length allUsers, n, page - 1)\<rparr>, w)"
  by (subst fetchAllUserRiskScores_loop.simps) (simp only: assms if_False)

lemma fetchAllUserRiskScores_loop_pages:
  assumes "page \<le> k" and "n + (k - page) < 100"
    and "\<forall>j. page \<le> j \<and> j < k \<longrightarrow>
           risk_page_ok (page_reply http (riskPageRequest j))
           \<and> reports_more (page_reply http (riskPageRequest j))"
    and "risk_page_ok (page_reply http (riskPageRequest k))"
    and "reports_last (page_reply http (riskPageRequest k)) \<or> n + (k - page) = 99"
  shows "run (\<lambda>tr. api_calls tr = page_calls riskPageRequest page k) w
           (snd (fetchAllUserRiskScores_loop http page True n allUsers w))
       \<and> rr_success (fst (fetchAllUserRiskScores_loop http page True n allUsers w))"
  using assms(1,2,3,5)
proof (induction "k - page" arbitrary: page n allUsers w)
  case 0
  then have pk: "page = k" and n: "n < 100" and last: "reports_last (page_reply http (riskPageRequest k)) \<or> n = 99"
    by simp_all
  obtain d where d: "page_reply http (riskPageRequest k) = Inr d" "data_success d"
    using assms(4) by (auto simp: risk_page_ok_def split: sum.splits)
  define w1 where "w1 = snd (makeApiRequest http (riskPageRequest k) 3 w)"
  have r1: "run (api_trace (riskPageRequest k) 3) w w1"
    unfolding w1_def by (rule makeApiRequest_effects)
  have stop: "\<not> (js_less (data_page d) (data_total_pages d) \<and> n + 1 < 100)"
    using last d(1) reports_last_not_more [of "Inr d"] by (auto simp: reports_more_def)
  have r2: "run (\<lambda>tr. api_calls tr = [ApiCall (riskPageRequest k)]) w
      (if js_less (data_page d) (data_total_pages d) then emit (Sleep (Millis 100)) w1 else w1)"
    using r1 run_optional_sleep run_nil [of "\<lambda>tr. api_calls tr = []"]
    by (rule run_api_calls_step) (simp add: api_calls_def)
  have unfold: "fetchAllUserRiskScores_loop http k True n allUsers w =
      fetchAllUserRiskScores_loop http (k + 1) (js_less (data_page d) (data_total_pages d))
        (n + 1) (allUsers @ result_users (data_result d))
        (if js_less (data_page d) (data_total_pages d) then emit (Sleep (Millis 100)) w1 else w1)"
    using n d
    by (subst fetchAllUserRiskScores_loop.simps)
      (simp add: case_prod_beta page_reply_eq w1_def)
  show ?case
    unfolding pk unfold fetchAllUserRiskScores_loop_exit [OF stop] using r2
    by (simp add: page_calls_single)
next
  case (Suc m)
  then have lt: "page < k" and m: "m = k - Suc page" and n: "n < 100"
    by simp_all
  have cont: "risk_page_ok (page_reply http (riskPageRequest page))"
      "reports_more (page_reply http (riskPageRequest page))"
    using Suc.prems(3) lt by auto
  obtain d where d: "page_reply http (riskPageRequest page) = Inr d" "data_success d"
      "js_less (data_page d) (data_total_pages d)"
    using cont by (auto simp: risk_page_ok_def reports_more_def split: sum.splits)
  define w1 where "w1 = snd (makeApiRequest http (riskPageRequest page) 3 w)"
  have r1: "run (api_trace (riskPageRequest page) 3) w w1"
    unfolding w1_def by (rule makeApiRequest_effects)
  have unfold: "fetchAllUserRiskScores_loop http page True n allUsers w =
      fetchAllUserRiskScores_loop http (Suc page) True (Suc n)
        (allUsers @ result_users (data_result d)) (emit (Sleep (Millis 100)) w1)"
    using n d
    by (subst fetchAllUserRiskScores_loop.simps)
      (simp add: case_prod_beta page_reply_eq w1_def)
  have ih: "run (\<lambda>tr. api_calls tr = page_calls riskPageRequest (Suc page) k)
        (emit (Sleep (Millis 100)) w1)
        (snd (fetchAllUserRiskScores_loop http (Suc page) True (Suc n)
           (allUsers @ result_users (data_result d)) (emit (Sleep (Millis 100)) w1)))
      \<and> rr_success (fst (fetchAllUserRiskScores_loop http (Suc page) True (Suc n)
           (allUsers @ result_users (data_result d)) (emit (Sleep (Millis 100)) w1)))"
    using Suc.prems lt by (intro Suc.hyps(1) [OF m]) auto
  have step: "run (\<lambda>tr. api_calls tr = ApiCall (riskPageRequest page) # page_calls riskPageRequest (Suc page) k) w
        (snd (fetchAllUserRiskScores_loop http (Suc page) True (Suc n)
           (allUsers @ result_users (data_result d)) (emit (Sleep (Millis 100)) w1)))"
    using r1 run_emit [of "bounded_reads 0", OF bounded_reads_sleep] conjunct1 [OF ih]
    by (rule run_api_calls_step)
  show ?case
    unfolding unfold using step ih lt by (simp add: page_calls_Cons)
qed

lemma fetchGatewayListItems_loop_exit:
  assumes "\<not> (hasMore \<and> n < 50)"
  shows "fetchGatewayListItems_loop http listId page hasMore n allItems w =
     (Inr (allItems, n, page), w)"
  by (subst fetchGatewayListItems_loop.simps) (simp only: assms if_False)

lemma fetchGatewayListItems_loop_pages:
  assumes "page \<le> k" and "n + (k - page) < 50"
    and "\<forall>j. page \<le> j \<and> j < k \<longrightarrow>
           items_page_ok (page_reply http (listItemsRequest listId j))
           \<and> reports_more (page_reply http (listItemsRequest listId j))"
    and "items_page_ok (page_reply http (listItemsRequest listId k))"
    and "reports_last (page_reply http (listItemsRequest listId k)) \<or> n + (k - page) = 49"
  shows "run (\<lambda>tr. api_calls tr = page_calls (listItemsRequest listId) page k) w
           (snd (fetchGatewayListItems_loop http listId page True n allItems w))
       \<and> (\<exists>r. fst (fetchGatewayListItems_loop http listId page True n allItems w) = Inr r)"
  using assms(1,2,3,5)
proof (induction "k - page" arbitrary: page n allItems w)
  case 0
  then have pk: "page = k" and n: "n < 50"
    and last: "reports_last (page_reply http (listItemsRequest listId k)) \<or> n = 49"
    by simp_all
  obtain d its where d: "page_reply http (listItemsRequest listId k) = Inr d" "data_success d"
      "result_items (data_result d) = Inr its"
    using assms(4) by (auto simp: items_page_ok_def split: sum.splits)
  define w1 where "w1 = snd (makeApiRequest http (listItemsRequest listId k) 3 w)"
  have r1: "run (api_trace (listItemsRequest listId k) 3) w w1"
    unfolding w1_def by (rule makeApiRequest_effects)
  have stop: "\<not> (js_less (data_page d) (data_total_pages d) \<and> n + 1 < 50)"
    using last d(1) reports_last_not_more [of "Inr d"] by (auto simp: reports_more_def)
  have r2: "run (\<lambda>tr. api_calls tr = [ApiCall (listItemsRequest listId k)]) w
      (if js_less (data_page d) (data_total_pages d) then emit (Sleep (Millis 50)) w1 else w1)"
    using r1 run_optional_sleep run_nil [of "\<lambda>tr. api_calls tr = []"]
    by (rule run_api_calls_step) (simp add: api_calls_def)
  have unfold: "fetchGatewayListItems_loop http listId k True n allItems w =
      fetchGatewayListItems_loop http listId (k + 1)
        (js_less (data_page d) (data_total_pages d)) (n + 1) (allItems @ its)
        (if js_less (data_page d) (data_total_pages d) then emit (Sleep (Millis 50)) w1 else w1)"
    using n d
    by (subst fetchGatewayListItems_loop.simps)
      (simp add: case_prod_beta page_reply_eq w1_def)
  show ?case
    unfolding pk unfold fetchGatewayListItems_loop_exit [OF stop] using r2
    by (simp add: page_calls_single)
next
  case (Suc m)
  then have lt: "page < k" and m: "m = k - Suc page" and n: "n < 50"
    by simp_all
  have cont: "items_page_ok (page_reply http (listItemsRequest listId page))"
      "reports_more (page_reply http (listItemsRequest listId page))"
    using Suc.prems(3) lt by auto
  obtain d its where d: "page_reply http (listItemsRequest listId page) = Inr d" "data_success d"
      "result_items (data_result d) = Inr its" "js_less (data_page d) (data_total_pages d)"
    using cont by (auto simp: items_page_ok_def reports_more_def split: sum.splits)
  define w1 where "w1 = snd (makeApiRequest http (listItemsRequest listId page) 3 w)"
  have r1: "run (api_trace (listItemsRequest listId page) 3) w w1"
    unfolding w1_def by (rule makeApiRequest_effects)
  have unfold: "fetchGatewayListItems_loop http listId page True n allItems w =
      fetchGatewayListItems_loop http listId (Suc page) True (Suc n)
        (allItems @ its) (emit (Sleep (Millis 50)) w1)"
    using n d
    by (subst fetchGatewayListItems_loop.simps)
      (simp add: case_prod_beta page_reply_eq w1_def)
  have ih: "run (\<lambda>tr. api_calls tr = page_calls (listItemsRequest listId) (Suc page) k)
        (emit (Sleep (Millis 50)) w1)
        (snd (fetchGatewayListItems_loop http listId (Suc page) True (Suc n)
           (allItems @ its) (emit (Sleep (Millis 50)) w1)))
      \<and> (\<exists>r. fst (fetchGatewayListItems_loop http listId (Suc page) True (Suc n)
           (allItems @ its) (emit (Sleep (Millis 50)) w1)) = Inr r)"
    using Suc.prems lt by (intro Suc.hyps(1) [OF m]) auto
  have step: "run (\<lambda>tr. api_calls tr
          = ApiCall (listItemsRequest listId page) # page_calls (listItemsRequest listId) (Suc page) k) w
        (snd (fetchGatewayListItems_loop http listId (Suc page) True (Suc n)
           (allItems @ its) (emit (Sleep (Millis 50)) w1)))"
    using r1 run_emit [of "bounded_reads 0", OF bounded_reads_sleep] conjunct1 [OF ih]
    by (rule run_api_calls_step)
  show ?case
    unfolding unfold using step ih lt by (simp add: page_calls_Cons)
qed

lemma page_reply_first_attempt:
  assumes "http req 1 = Response r" and "status r \<noteq> 429" and "status r < 500"
  shows "page_reply http req = json r"
  using assms
  by (simp add: page_reply_def makeApiRequest_def json_of_def
      makeApiRequest_from.simps [of http req 3 "Suc 0"])

lemma fetchGatewayListItems_fst_Inr:
  "fst (fetchGatewayListItems_loop http listId 1 True 0 [] w) = Inr r \<Longrightarrow>
   ir_error (fst (fetchGatewayListItems http listId level w)) = None"
  by (cases "fetchGatewayListItems_loop http listId 1 True 0 [] w")
    (auto simp: fetchGatewayListItems_def split: prod.splits)

text \<open>
  C5. fetchAllUserRiskScores calls makeApiRequest at most 100 times (so it fetches at most
  300 times) and fetchGatewayListItems at most 50 times (150 fetches), whatever the
  source answers; both are total functions, so each fetch terminates. When the pages
  before page k succeed and report more pages and page k succeeds and reports
  page >= total_pages, or k is the bound, the pages requested are exactly 1, ..., k and
  the fetch ends without an error.
\<close>

theorem pagination_safety_bound:
  "length (api_calls (since w (snd (fetchAllUserRiskScores http w)))) \<le> 100
   \<and> length (filter is_fetch (since w (snd (fetchAllUserRiskScores http w)))) \<le> 300
   \<and> length (api_calls (since w (snd (fetchGatewayListItems http listId level w)))) \<le> 50
   \<and> length (filter is_fetch (since w (snd (fetchGatewayListItems http listId level w)))) \<le> 150
   \<and> (1 \<le> k \<and> k \<le> 100
        \<and> (\<forall>j. 1 \<le> j \<and> j < k \<longrightarrow>
              risk_page_ok (page_reply http (riskPageRequest j))
              \<and> reports_more (page_reply http (riskPageRequest j)))
        \<and> risk_page_ok (page_reply http (riskPageRequest k))
        \<and> (reports_last (page_reply http (riskPageRequest k)) \<or> k = 100)
      \<longrightarrow> api_calls (since w (snd (fetchAllUserRiskScores http w)))
            = page_calls riskPageRequest 1 k
          \<and> rr_success (fst (fetchAllUserRiskScores http w)))
   \<and> (1 \<le> k' \<and> k' \<le> 50
        \<and> (\<forall>j. 1 \<le> j \<and> j < k' \<longrightarrow>
              items_page_ok (page_reply http (listItemsRequest listId j))
              \<and> reports_more (page_reply http (listItemsRequest listId j)))
        \<and> items_page_ok (page_reply http (listItemsRequest listId k'))
        \<and> (reports_last (page_reply http (listItemsRequest listId k')) \<or> k' = 50)
      \<longrightarrow> api_calls (since w (snd (fetchGatewayListItems http listId level w)))
            = page_calls (listItemsRequest listId) 1 k'
          \<and> ir_error (fst (fetchGatewayListItems http listId level w)) = None)"
proof (intro conjI impI)
  have risk: "bounded_reads 100 (since w (snd (fetchAllUserRiskScores http w)))"
    by (rule run_since [OF fetchAllUserRiskScores_bounded])
  show "length (api_calls (since w (snd (fetchAllUserRiskScores http w)))) \<le> 100"
    using risk by (simp add: bounded_reads_def api_calls_def)
  show "length (filter is_fetch (since w (snd (fetchAllUserRiskScores http w)))) \<le> 300"
    using risk by (simp add: bounded_reads_def)
  have its: "bounded_reads 50 (since w (snd (fetchGatewayListItems http listId level w)))"
    by (rule run_since [OF fetchGatewayListItems_bounded])
  show "length (api_calls (since w (snd (fetchGatewayListItems http listId level w)))) \<le> 50"
    using its by (simp add: bounded_reads_def api_calls_def)
  show "length (filter is_fetch (since w (snd (fetchGatewayListItems http listId level w)))) \<le> 150"
    using its by (simp add: bounded_reads_def)
next
  assume h: "1 \<le> k \<and> k \<le> 100
        \<and> (\<forall>j. 1 \<le> j \<and> j < k \<longrightarrow>
              risk_page_ok (page_reply http (riskPageRequest j))
              \<and> reports_more (page_reply http (riskPageRequest j)))
        \<and> risk_page_ok (page_reply http (riskPageRequest k))
        \<and> (reports_last (page_reply http (riskPageRequest k)) \<or> k = 100)"
  have last: "reports_last (page_reply http (riskPageRequest k)) \<or> 0 + (k - 1) = 99"
    using h by auto
  have loop: "run (\<lambda>tr. api_calls tr = page_calls riskPageRequest 1 k) w
           (snd (fetchAllUserRiskScores_loop http 1 True 0 [] w))
       \<and> rr_success (fst (fetchAllUserRiskScores_loop http 1 True 0 [] w))"
    using h last by (intro fetchAllUserRiskScores_loop_pages) auto
  show "api_calls (since w (snd (fetchAllUserRiskScores http w))) = page_calls riskPageRequest 1 k"
    using run_since [OF conjunct1 [OF loop]] by (simp add: fetchAllUserRiskScores_def)
  show "rr_success (fst (fetchAllUserRiskScores http w))"
    using loop by (simp add: fetchAllUserRiskScores_def)
next
  assume h: "1 \<le> k' \<and> k' \<le> 50
        \<and> (\<forall>j. 1 \<le> j \<and> j < k' \<longrightarrow>
              items_page_ok (page_reply http (listItemsRequest listId j))
              \<and> reports_more (page_reply http (listItemsRequest listId j)))
        \<and> items_page_ok (page_reply http (listItemsRequest listId k'))
        \<and> (reports_last (page_reply http (listItemsRequest listId k')) \<or> k' = 50)"
  have last: "reports_last (page_reply http (listItemsRequest listId k')) \<or> 0 + (k' - 1) = 49"
    using h by auto
  have loop: "run (\<lambda>tr. api_calls tr = page_calls (listItemsRequest listId) 1 k') w
           (snd (fetchGatewayListItems_loop http listId 1 True 0 [] w))
       \<and> (\<exists>r. fst (fetchGatewayListItems_loop http listId 1 True 0 [] w) = Inr r)"
    using h last by (intro fetchGatewayListItems_loop_pages) auto
  show "api_calls (since w (snd (fetchGatewayListItems http listId level w)))
      = page_calls (listItemsRequest listId) 1 k'"
    using run_since [OF conjunct1 [OF loop]] by (simp add: fetchGatewayListItems_snd)
  show "ir_error (fst (fetchGatewayListItems http listId level w)) = None"
    using loop fetchGatewayListItems_fst_Inr by blast
qed

lemma two_pages_risk_reply:
  "page_reply two_pages (riskPageRequest p)
     = json (page_of (UsersResult (if p = 1 then [alice, bob] else [carol])) p 2)"
  by (rule page_reply_first_attempt) (simp_all add: two_pages_def riskPageRequest_def page_of_def)

lemma two_pages_items_reply:
  "page_reply two_pages (listItemsRequest l p)
     = json (page_of (ItemsResult (if p = 1 then [item ''b@x.com''] else [item ''c@x.com''])) p 2)"
  by (rule page_reply_first_attempt) (simp_all add: two_pages_def listItemsRequest_def page_of_def)

lemma endless_risk_reply:
  "page_reply endless (riskPageRequest p) = json (page_of (UsersResult []) p (int p + 1))"
  by (rule page_reply_first_attempt) (simp_all add: endless_def riskPageRequest_def page_of_def)

lemma endless_items_reply:
  "page_reply endless (listItemsRequest l p) = json (page_of (ItemsResult []) p (int p + 1))"
  by (rule page_reply_first_attempt) (simp_all add: endless_def listItemsRequest_def page_of_def)

theorem pagination_safety_bound_witness:
  "risk_page_ok (page_reply two_pages (riskPageRequest 1))
   \<and> reports_more (page_reply two_pages (riskPageRequest 1))
   \<and> risk_page_ok (page_reply two_pages (riskPageRequest 2))
   \<and> reports_last (page_reply two_pages (riskPageRequest 2))
   \<and> api_calls (since w0 (snd (fetchAllUserRiskScores two_pages w0)))
       = [ApiCall (riskPageRequest 1), ApiCall (riskPageRequest 2)]
   \<and> items_page_ok (page_reply two_pages (listItemsRequest ''l'' 1))
   \<and> reports_more (page_reply two_pages (listItemsRequest ''l'' 1))
   \<and> items_page_ok (page_reply two_pages (listItemsRequest ''l'' 2))
   \<and> reports_last (page_reply two_pages (listItemsRequest ''l'' 2))
   \<and> api_calls (since w0 (snd (fetchGatewayListItems two_pages ''l'' None w0)))
       = [ApiCall (listItemsRequest ''l'' 1), ApiCall (listItemsRequest ''l'' 2)]
   \<and> (\<forall>j. risk_page_ok (page_reply endless (riskPageRequest j))
          \<and> reports_more (page_reply endless (riskPageRequest j))
          \<and> items_page_ok (page_reply endless (listItemsRequest ''l'' j))
          \<and> reports_more (page_reply endless (listItemsRequest ''l'' j)))
   \<and> api_calls (since w0 (snd (fetchAllUserRiskScores endless w0)))
       = page_calls riskPageRequest 1 100
   \<and> api_calls (since w0 (snd (fetchGatewayListItems endless ''l'' None w0)))
       = page_calls (listItemsRequest ''l'') 1 50"
proof -
  have j: "(1 \<le> j \<and> j < 2) = (j = 1)" for j :: nat
    by auto
  have two: "api_calls (since w0 (snd (fetchAllUserRiskScores two_pages w0)))
       = [ApiCall (riskPageRequest 1), ApiCall (riskPageRequest 2)]
     \<and> api_calls (since w0 (snd (fetchGatewayListItems two_pages ''l'' None w0)))
       = [ApiCall (listItemsRequest ''l'' 1), ApiCall (listItemsRequest ''l'' 2)]"
    using pagination_safety_bound [of w0 two_pages "''l''" None 2 2]
    by (simp add: j two_pages_risk_reply two_pages_items_reply page_of_def risk_page_ok_def
        items_page_ok_def reports_more_def reports_last_def js_less_def result_items_def
        page_calls_def upt_conv_Cons numeral_2_eq_2)
  have more: "risk_page_ok (page_reply endless (riskPageRequest j))
          \<and> reports_more (page_reply endless (riskPageRequest j))
          \<and> items_page_ok (page_reply endless (listItemsRequest ''l'' j))
          \<and> reports_more (page_reply endless (listItemsRequest ''l'' j))" for j
    by (simp add: endless_risk_reply endless_items_reply page_of_def risk_page_ok_def
        items_page_ok_def reports_more_def js_less_def result_items_def)
  have bound: "api_calls (since w0 (snd (fetchAllUserRiskScores endless w0)))
       = page_calls riskPageRequest 1 100
     \<and> api_calls (since w0 (snd (fetchGatewayListItems endless ''l'' None w0)))
       = page_calls (listItemsRequest ''l'') 1 50"
    using pagination_safety_bound [of w0 endless "''l''" None 100 50] more
    by simp
  show ?thesis
    using two more bound
    by (simp add: two_pages_risk_reply two_pages_items_reply page_of_def risk_page_ok_def
        items_page_ok_def reports_more_def reports_last_def js_less_def result_items_def)
qed

section \<open>Properties of the reconciler\<close>

lemma set_new_Set: "set (new_Set xs) = set xs"
  by (simp add: new_Set_def)

lemma distinct_new_Set: "distinct (new_Set xs)"
  by (simp add: new_Set_def)

lemma set_emailsToAdd: "set (emailsToAdd E A) = set E - set A"
  by (auto simp: emailsToAdd_def)

lemma set_emailsToRemove: "set (emailsToRemove E A) = set A - set E"
  by (auto simp: emailsToRemove_def)

lemma patch_append_values_patchBody: "patch_append_values (patchBody st toAdd toRemove) = toAdd"
  by (simp add: patch_append_values_def patchBody_def comp_def)

lemma patch_remove_values_patchBody: "patch_remove_values (patchBody st toAdd toRemove) = toRemove"
  by (simp add: patch_remove_values_def patchBody_def)

lemma membership_remote_apply:
  "membership (remote_apply_patch b its)
     = (membership its - set (patch_remove_values b)) \<union> set (patch_append_values b)"
  by (cases b)
    (auto simp: membership_def remote_apply_patch_def patch_remove_values_def
      patch_append_values_def)

lemma membership_remote_apply_patch:
  "membership (remote_apply_patch (patchBody st toAdd toRemove) its)
     = (membership its - set toRemove) \<union> set toAdd"
  by (simp add: membership_remote_apply patch_append_values_patchBody
      patch_remove_values_patchBody)

lemma membership_after_diff:
  "membership (remote_apply_patch
      (patchBody st (emailsToAdd (new_Set es) (new_Set (map item_value its)))
         (emailsToRemove (new_Set es) (new_Set (map item_value its)))) its) = set es"
  unfolding membership_remote_apply_patch set_emailsToAdd set_emailsToRemove set_new_Set
  by (auto simp: membership_def)

lemma diff_empty_iff:
  "emailsToAdd (new_Set es) (new_Set xs) = [] \<and> emailsToRemove (new_Set es) (new_Set xs) = []
     \<longleftrightarrow> set es = set xs"
proof -
  have "emailsToAdd (new_Set es) (new_Set xs) = [] \<longleftrightarrow> set es \<subseteq> set xs"
    using set_emailsToAdd [of "new_Set es" "new_Set xs"]
    by (metis Diff_eq_empty_iff set_empty set_new_Set)
  moreover have "emailsToRemove (new_Set es) (new_Set xs) = [] \<longleftrightarrow> set xs \<subseteq> set es"
    using set_emailsToRemove [of "new_Set es" "new_Set xs"]
    by (metis Diff_eq_empty_iff set_empty set_new_Set)
  ultimately show ?thesis by auto
qed

lemma makeApiRequest_from_first_fetch:
  assumes "a \<le> m"
  shows "run (\<lambda>tr. \<exists>tr'. tr = Fetch req # tr') w (snd (makeApiRequest_from http req m a w))"
proof -
  have one: "run (\<lambda>tr. \<exists>tr'. tr = Fetch req # tr') w (emit (Fetch req) w)"
    by (rule run_emit) simp
  have more: "run (\<lambda>tr. \<exists>tr'. tr = Fetch req # tr') w
      (snd (makeApiRequest_from http req m (Suc a) (emit (Sleep d) (emit (Fetch req) w))))" for d
  proof (rule run_seq)
    show "run (\<lambda>tr. tr = [Fetch req, Sleep d]) w (emit (Sleep d) (emit (Fetch req) w))"
      unfolding run_def by (simp add: emit_def)
    show "run (transport_trace req (Suc m - Suc a)) (emit (Sleep d) (emit (Fetch req) w))
        (snd (makeApiRequest_from http req m (Suc a) (emit (Sleep d) (emit (Fetch req) w))))"
      by (rule makeApiRequest_from_effects)
    show "\<exists>tr'. x @ y = Fetch req # tr'" if "x = [Fetch req, Sleep d]" for x y
      using that by simp
  qed
  show ?thesis
    using assms one more
    by (subst makeApiRequest_from.simps) (simp split: fetch_outcome.splits)
qed

lemma makeApiRequest_first_fetch:
  "run (\<lambda>tr. \<exists>tr'. tr = ApiCall req # Fetch req # tr') w (snd (makeApiRequest http req 3 w))"
proof (rule run_seq)
  show "run (\<lambda>tr. tr = [ApiCall req]) w (emit (ApiCall req) w)"
    by (rule run_emit) simp
  show "run (\<lambda>tr. \<exists>tr'. tr = Fetch req # tr') (emit (ApiCall req) w)
      (snd (makeApiRequest http req 3 w))"
    unfolding makeApiRequest_def by (rule makeApiRequest_from_first_fetch) simp
  show "\<exists>tr'. x @ y = ApiCall req # Fetch req # tr'"
    if "x = [ApiCall req]" and "\<exists>tr'. y = Fetch req # tr'" for x y
    using that by auto
qed

lemma sync_changes_in_sync:
  assumes "sync_toAdd st r = []" and "sync_toRemove st r = []"
  shows "sync_changes http listId st r w =
     (\<lparr>sr_success = True, sr_added = Some 0, sr_removed = Some 0,
       sr_totalUsers = Some (length (emails st)),
       sr_method = None, sr_message = Some ''Already in sync'', sr_error = None\<rparr>, w)"
  using assms by (simp add: sync_changes_def sync_toAdd_def sync_toRemove_def)

lemma sync_changes_patch:
  assumes "sync_toAdd st r \<noteq> [] \<or> sync_toRemove st r \<noteq> []"
  shows "snd (sync_changes http listId st r w)
       = snd (makeApiRequest http (sync_patch listId st r) 3 w)"
    and "fst (sync_changes http listId st r w) =
       (case page_reply http (sync_patch listId st r) of
          Inl msg \<Rightarrow> sync_failed (ErrorText msg)
        | Inr updateData \<Rightarrow>
            if data_success updateData then
              \<lparr>sr_success = True, sr_added = Some (length (sync_toAdd st r)),
               sr_removed = Some (length (sync_toRemove st r)),
               sr_totalUsers = Some (length (emails st)),
               sr_method = Some ''PATCH'', sr_message = None, sr_error = None\<rparr>
            else sync_failed (ApiErrors (data_errors updateData)))"
  using assms
  by (auto simp: sync_changes_def sync_toAdd_def sync_toRemove_def sync_patch_def Let_def
      case_prod_beta page_reply_eq split: sum.splits)

lemma syncGatewayListFromKV_fetched:
  assumes "kv w (kvKey listId) = Some st"
    and "\<not> js_truthy (ir_error (sync_fetched http listId w))"
  shows "syncGatewayListFromKV http listId w =
     sync_changes http listId st (sync_fetched http listId w) (sync_after_fetch http listId w)"
  using assms
  by (simp add: syncGatewayListFromKV_def kv_get_Some [OF assms(1)] sync_fetched_def
      sync_after_fetch_def case_prod_beta)

lemma fetchGatewayListItems_single_page:
  assumes "page_reply http (listItemsRequest listId 1) = Inr d" and "data_success d"
    and "result_items (data_result d) = Inr its"
    and "\<not> js_less (data_page d) (data_total_pages d)"
  shows "fst (fetchGatewayListItems http listId level w) =
     \<lparr>ir_riskLevel = level, ir_listId = listId, ir_items = its,
      ir_pagination = Some (length its, 1, 1), ir_error = None\<rparr>"
proof -
  have "fetchGatewayListItems_loop http listId 1 True 0 [] w =
      (Inr (its, 1, 2), snd (makeApiRequest http (listItemsRequest listId 1) 3 w))"
    using assms
    by (subst fetchGatewayListItems_loop.simps)
      (simp add: case_prod_beta page_reply_eq fetchGatewayListItems_loop_exit)
  then show ?thesis
    by (simp add: fetchGatewayListItems_def)
qed

lemma sync_issues_patch:
  assumes "kv w (kvKey listId) = Some st"
    and "\<not> js_truthy (ir_error (sync_fetched http listId w))"
    and diff: "sync_toAdd st (sync_fetched http listId w) \<noteq> []
        \<or> sync_toRemove st (sync_fetched http listId w) \<noteq> []"
  shows "api_calls (since (sync_after_fetch http listId w)
                      (snd (syncGatewayListFromKV http listId w)))
        = [ApiCall (sync_patch listId st (sync_fetched http listId w))]
      \<and> Fetch (sync_patch listId st (sync_fetched http listId w))
          \<in> set (since (sync_after_fetch http listId w)
                      (snd (syncGatewayListFromKV http listId w)))"
proof -
  define r where "r = sync_fetched http listId w"
  define w1 where "w1 = sync_after_fetch http listId w"
  have w': "snd (syncGatewayListFromKV http listId w)
      = snd (makeApiRequest http (sync_patch listId st r) 3 w1)"
    using syncGatewayListFromKV_fetched [OF assms(1,2)] sync_changes_patch(1) [OF diff]
    by (simp add: r_def w1_def)
  have "api_trace (sync_patch listId st r) 3 (since w1 (snd (syncGatewayListFromKV http listId w)))"
    unfolding w' by (rule run_since [OF makeApiRequest_effects])
  then have a: "api_calls (since w1 (snd (syncGatewayListFromKV http listId w)))
      = [ApiCall (sync_patch listId st r)]"
    by (simp add: api_calls_def api_trace_calls)
  have "\<exists>tr'. since w1 (snd (syncGatewayListFromKV http listId w))
      = ApiCall (sync_patch listId st r) # Fetch (sync_patch listId st r) # tr'"
    unfolding w' by (rule run_since [OF makeApiRequest_first_fetch])
  then have b: "Fetch (sync_patch listId st r)
      \<in> set (since w1 (snd (syncGatewayListFromKV http listId w)))"
    by auto
  show ?thesis using a b unfolding r_def w1_def by simp
qed

text \<open>
  C1. When the snapshot of a list is there and the fetch of the list carries no error tag,
  the two difference lists of syncGatewayListFromKV are, as sets, expected minus fetched
  and fetched minus expected; when one of them is not empty the only call made after the
  fetch is one PATCH (and it is fetched) whose body appends the first and removes the
  second; and a remote store that applies that body to the fetched items ends with
  exactly the expected identifiers.
\<close>

theorem sync_diff_complete:
  assumes "kv w (kvKey listId) = Some st"
    and "\<not> js_truthy (ir_error (sync_fetched http listId w))"
  shows "set (sync_toAdd st (sync_fetched http listId w))
           = set (emails st) - membership (ir_items (sync_fetched http listId w))
       \<and> set (sync_toRemove st (sync_fetched http listId w))
           = membership (ir_items (sync_fetched http listId w)) - set (emails st)
       \<and> (sync_toAdd st (sync_fetched http listId w) \<noteq> []
            \<or> sync_toRemove st (sync_fetched http listId w) \<noteq> [] \<longrightarrow>
          api_calls (since (sync_after_fetch http listId w)
                       (snd (syncGatewayListFromKV http listId w)))
            = [ApiCall (sync_patch listId st (sync_fetched http listId w))]
          \<and> Fetch (sync_patch listId st (sync_fetched http listId w))
              \<in> set (since (sync_after_fetch http listId w)
                       (snd (syncGatewayListFromKV http listId w))))
       \<and> req_method (sync_patch listId st (sync_fetched http listId w)) = PATCH
       \<and> patch_append_values (req_body (sync_patch listId st (sync_fetched http listId w)))
           = sync_toAdd st (sync_fetched http listId w)
       \<and> patch_remove_values (req_body (sync_patch listId st (sync_fetched http listId w)))
           = sync_toRemove st (sync_fetched http listId w)
       \<and> membership (remote_apply_patch
             (req_body (sync_patch listId st (sync_fetched http listId w)))
             (ir_items (sync_fetched http listId w)))
           = set (emails st)"
proof -
  define r where "r = sync_fetched http listId w"
  have sets: "set (sync_toAdd st r) = set (emails st) - membership (ir_items r)"
      "set (sync_toRemove st r) = membership (ir_items r) - set (emails st)"
    by (simp_all add: sync_toAdd_def sync_toRemove_def set_emailsToAdd set_emailsToRemove
        set_new_Set membership_def)
  have body: "req_method (sync_patch listId st r) = PATCH"
      "patch_append_values (req_body (sync_patch listId st r)) = sync_toAdd st r"
      "patch_remove_values (req_body (sync_patch listId st r)) = sync_toRemove st r"
    by (simp_all add: sync_patch_def patchRequest_def patch_append_values_patchBody
        patch_remove_values_patchBody)
  have applied: "membership (remote_apply_patch (req_body (sync_patch listId st r)) (ir_items r))
      = set (emails st)"
    by (simp add: sync_patch_def patchRequest_def sync_toAdd_def sync_toRemove_def
        membership_after_diff)
  show ?thesis
    using sets body applied sync_issues_patch [OF assms] unfolding r_def by simp
qed

lemma kv_storeExpectedStateInKV:
  "put_accepted w (kvKey listId) \<Longrightarrow>
     kv (snd (storeExpectedStateInKV listId users level now w))
       = (kv w)(kvKey listId \<mapsto> expectedStateOf users level now)"
  using kv_put_accepted [of w "kvKey listId" "expectedStateOf users level now" None]
  by (simp add: storeExpectedStateInKV_def case_prod_beta split: option.splits)

lemma kv_w_ab: "kv w_ab (kvKey ''l'') = Some st_ab"
  by (simp add: w_ab_def st_ab_def kv_storeExpectedStateInKV put_accepted_w0)

lemma remote_bc_items_reply:
  "page_reply remote_bc (listItemsRequest l p)
     = json (page_of (ItemsResult [item ''b@x.com'', item ''c@x.com'']) p 1)"
  by (rule page_reply_first_attempt) (simp_all add: remote_bc_def listItemsRequest_def page_of_def)

lemma remote_bc_fetched:
  "fst (fetchGatewayListItems remote_bc l level w) =
     \<lparr>ir_riskLevel = level, ir_listId = l, ir_items = [item ''b@x.com'', item ''c@x.com''],
      ir_pagination = Some (2, 1, 1), ir_error = None\<rparr>"
  using fetchGatewayListItems_single_page [of remote_bc l _ "[item ''b@x.com'', item ''c@x.com'']" level w]
  by (simp add: remote_bc_items_reply page_of_def result_items_def js_less_def)

theorem sync_diff_complete_witness:
  "kv w_ab (kvKey ''l'') = Some st_ab
   \<and> \<not> js_truthy (ir_error (sync_fetched remote_bc ''l'' w_ab))
   \<and> emails st_ab = [''a@x.com'', ''b@x.com'']
   \<and> map item_value (ir_items (sync_fetched remote_bc ''l'' w_ab)) = [''b@x.com'', ''c@x.com'']
   \<and> sync_toAdd st_ab (sync_fetched remote_bc ''l'' w_ab) = [''a@x.com'']
   \<and> sync_toRemove st_ab (sync_fetched remote_bc ''l'' w_ab) = [''c@x.com'']
   \<and> api_calls (since (sync_after_fetch remote_bc ''l'' w_ab)
                   (snd (syncGatewayListFromKV remote_bc ''l'' w_ab)))
        = [ApiCall (sync_patch ''l'' st_ab (sync_fetched remote_bc ''l'' w_ab))]
   \<and> membership (remote_apply_patch
         (req_body (sync_patch ''l'' st_ab (sync_fetched remote_bc ''l'' w_ab)))
         (ir_items (sync_fetched remote_bc ''l'' w_ab)))
        = {''a@x.com'', ''b@x.com''}"
proof -
  have f: "sync_fetched remote_bc ''l'' w_ab =
     \<lparr>ir_riskLevel = None, ir_listId = ''l'', ir_items = [item ''b@x.com'', item ''c@x.com''],
      ir_pagination = Some (2, 1, 1), ir_error = None\<rparr>"
    by (simp add: sync_fetched_def remote_bc_fetched)
  have e: "emails st_ab = [''a@x.com'', ''b@x.com'']"
    by (simp add: st_ab_def expectedStateOf_def alice_def bob_def)
  have d: "sync_toAdd st_ab (sync_fetched remote_bc ''l'' w_ab) = [''a@x.com'']"
      "sync_toRemove st_ab (sync_fetched remote_bc ''l'' w_ab) = [''c@x.com'']"
    by (simp_all add: f e sync_toAdd_def sync_toRemove_def emailsToAdd_def emailsToRemove_def
        new_Set_def item_def)
  show ?thesis
    using sync_diff_complete [of w_ab "''l''" st_ab remote_bc] kv_w_ab d e
    by (auto simp: f js_truthy_def item_def)
qed

lemma run_true: "run Q w w' \<Longrightarrow> run (\<lambda>tr. True) w w'"
  by (erule run_weaken) simp

lemma sync_after_fetch_reads:
  "run (list_all (\<lambda>e. \<not> mutates e)) w (sync_after_fetch http listId w)"
  unfolding sync_after_fetch_def
proof (rule run_seq)
  show "run (\<lambda>tr. tr = [KVGet (kvKey listId)]) w (emit (KVGet (kvKey listId)) w)"
    by (rule run_emit) simp
  show "run (bounded_reads 50) (emit (KVGet (kvKey listId)) w)
      (snd (fetchGatewayListItems http listId None (emit (KVGet (kvKey listId)) w)))"
    by (rule fetchGatewayListItems_bounded)
  show "list_all (\<lambda>e. \<not> mutates e) (x @ y)"
    if "x = [KVGet (kvKey listId)]" and "bounded_reads 50 y" for x y
    using that by (simp add: bounded_reads_def mutates_def)
qed

lemma sync_changes_run: "run (\<lambda>tr. True) w (snd (sync_changes http listId st r w))"
proof (cases "sync_toAdd st r \<noteq> [] \<or> sync_toRemove st r \<noteq> []")
  case True
  show ?thesis
    unfolding sync_changes_patch(1) [OF True]
    by (rule run_true [OF makeApiRequest_effects])
next
  case False
  then show ?thesis
    by (simp add: sync_changes_in_sync run_nil)
qed

lemma syncGatewayListFromKV_run:
  "run (\<lambda>tr. True) w (snd (syncGatewayListFromKV http listId w))"
proof -
  consider (thrown) msg where "kv_get (kvKey listId) w = (Inl msg, w)"
    | (none) "kv_get (kvKey listId) w = (Inr None, emit (KVGet (kvKey listId)) w)"
    | (some) st where "kv w (kvKey listId) = Some st"
    using kv_get_cases [of "kvKey listId" w] by (cases "kv w (kvKey listId)") auto
  then show ?thesis
  proof cases
    case thrown
    then show ?thesis
      by (simp add: syncGatewayListFromKV_def run_nil)
  next
    case none
    then show ?thesis
      by (simp add: syncGatewayListFromKV_def run_emit)
  next
    case (some st)
    have f: "run (\<lambda>tr. True) w (sync_after_fetch http listId w)"
      by (rule run_true [OF sync_after_fetch_reads])
    show ?thesis
    proof (cases "js_truthy (ir_error (sync_fetched http listId w))")
      case True
      then show ?thesis
        using f
        by (simp add: syncGatewayListFromKV_def kv_get_Some [OF some] sync_fetched_def
            sync_after_fetch_def case_prod_beta)
    next
      case False
      show ?thesis
        unfolding syncGatewayListFromKV_fetched [OF some False]
        using f sync_changes_run by (rule run_seq) simp
    qed
  qed
qed

lemma kv_syncGatewayListFromKV: "kv (snd (syncGatewayListFromKV http listId w)) = kv w"
  by (rule run_kv [OF syncGatewayListFromKV_run])

lemma sync_in_sync:
  assumes "kv w (kvKey listId) = Some st"
    and "\<not> js_truthy (ir_error (sync_fetched http listId w))"
    and "membership (ir_items (sync_fetched http listId w)) = set (emails st)"
  shows "syncGatewayListFromKV http listId w =
     (\<lparr>sr_success = True, sr_added = Some 0, sr_removed = Some 0,
       sr_totalUsers = Some (length (emails st)),
       sr_method = None, sr_message = Some ''Already in sync'', sr_error = None\<rparr>,
      sync_after_fetch http listId w)"
proof -
  have "set (emails st) = set (map item_value (ir_items (sync_fetched http listId w)))"
    using assms(3) by (simp add: membership_def)
  then have "sync_toAdd st (sync_fetched http listId w) = []"
      "sync_toRemove st (sync_fetched http listId w) = []"
    using diff_empty_iff [of "emails st" "map item_value (ir_items (sync_fetched http listId w))"]
    by (simp_all add: sync_toAdd_def sync_toRemove_def)
  then show ?thesis
    by (simp add: syncGatewayListFromKV_fetched [OF assms(1,2)] sync_changes_in_sync)
qed

text \<open>
  C2. When the snapshot of a list is there, the fetch carries no error tag and the
  fetched identifiers are the expected ones, syncGatewayListFromKV returns success with
  added = 0 and removed = 0 and stops after the fetch: its whole trace holds no write, so
  no PATCH. Hence a second run, on the world the first run left, against a list that now
  holds what the PATCH of the first run asked for, adds nothing, removes nothing and
  writes nothing.
\<close>

theorem sync_idempotent:
  "(kv w (kvKey listId) = Some st
      \<and> \<not> js_truthy (ir_error (sync_fetched http listId w))
      \<and> membership (ir_items (sync_fetched http listId w)) = set (emails st)
    \<longrightarrow> fst (syncGatewayListFromKV http listId w) =
          \<lparr>sr_success = True, sr_added = Some 0, sr_removed = Some 0,
           sr_totalUsers = Some (length (emails st)),
           sr_method = None, sr_message = Some ''Already in sync'', sr_error = None\<rparr>
        \<and> snd (syncGatewayListFromKV http listId w) = sync_after_fetch http listId w
        \<and> list_all (\<lambda>e. \<not> mutates e) (since w (snd (syncGatewayListFromKV http listId w))))
   \<and> (kv w (kvKey listId) = Some st
      \<and> \<not> js_truthy (ir_error (sync_fetched http listId w))
      \<and> w' = snd (syncGatewayListFromKV http listId w)
      \<and> \<not> js_truthy (ir_error (sync_fetched http' listId w'))
      \<and> membership (ir_items (sync_fetched http' listId w'))
          = membership (remote_apply_patch
              (req_body (sync_patch listId st (sync_fetched http listId w)))
              (ir_items (sync_fetched http listId w)))
    \<longrightarrow> sr_success (fst (syncGatewayListFromKV http' listId w'))
        \<and> sr_added (fst (syncGatewayListFromKV http' listId w')) = Some 0
        \<and> sr_removed (fst (syncGatewayListFromKV http' listId w')) = Some 0
        \<and> list_all (\<lambda>e. \<not> mutates e) (since w' (snd (syncGatewayListFromKV http' listId w'))))"
proof (intro conjI impI)
  assume h: "kv w (kvKey listId) = Some st
      \<and> \<not> js_truthy (ir_error (sync_fetched http listId w))
      \<and> membership (ir_items (sync_fetched http listId w)) = set (emails st)"
  then have eq: "syncGatewayListFromKV http listId w =
     (\<lparr>sr_success = True, sr_added = Some 0, sr_removed = Some 0,
       sr_totalUsers = Some (length (emails st)),
       sr_method = None, sr_message = Some ''Already in sync'', sr_error = None\<rparr>,
      sync_after_fetch http listId w)"
    by (intro sync_in_sync) simp_all
  show "fst (syncGatewayListFromKV http listId w) =
          \<lparr>sr_success = True, sr_added = Some 0, sr_removed = Some 0,
           sr_totalUsers = Some (length (emails st)),
           sr_method = None, sr_message = Some ''Already in sync'', sr_error = None\<rparr>"
    by (simp add: eq)
  show "snd (syncGatewayListFromKV http listId w) = sync_after_fetch http listId w"
    by (simp add: eq)
  show "list_all (\<lambda>e. \<not> mutates e) (since w (snd (syncGatewayListFromKV http listId w)))"
    unfolding eq snd_conv by (rule run_since [OF sync_after_fetch_reads])
next
  assume h: "kv w (kvKey listId) = Some st
      \<and> \<not> js_truthy (ir_error (sync_fetched http listId w))
      \<and> w' = snd (syncGatewayListFromKV http listId w)
      \<and> \<not> js_truthy (ir_error (sync_fetched http' listId w'))
      \<and> membership (ir_items (sync_fetched http' listId w'))
          = membership (remote_apply_patch
              (req_body (sync_patch listId st (sync_fetched http listId w)))
              (ir_items (sync_fetched http listId w)))"
  from h have k: "kv w (kvKey listId) = Some st"
    and w': "w' = snd (syncGatewayListFromKV http listId w)"
    and e2: "\<not> js_truthy (ir_error (sync_fetched http' listId w'))"
    and mm: "membership (ir_items (sync_fetched http' listId w'))
          = membership (remote_apply_patch
              (req_body (sync_patch listId st (sync_fetched http listId w)))
              (ir_items (sync_fetched http listId w)))"
    by blast+
  have kv': "kv w' (kvKey listId) = Some st"
    using k by (simp add: w' kv_syncGatewayListFromKV)
  have "membership (remote_apply_patch
              (req_body (sync_patch listId st (sync_fetched http listId w)))
              (ir_items (sync_fetched http listId w))) = set (emails st)"
    by (simp add: sync_patch_def patchRequest_def sync_toAdd_def sync_toRemove_def
        membership_after_diff)
  then have m: "membership (ir_items (sync_fetched http' listId w')) = set (emails st)"
    using mm by simp
  have eq: "syncGatewayListFromKV http' listId w' =
     (\<lparr>sr_success = True, sr_added = Some 0, sr_removed = Some 0,
       sr_totalUsers = Some (length (emails st)),
       sr_method = None, sr_message = Some ''Already in sync'', sr_error = None\<rparr>,
      sync_after_fetch http' listId w')"
    using kv' e2 m by (rule sync_in_sync)
  show "sr_success (fst (syncGatewayListFromKV http' listId w'))"
    by (simp add: eq)
  show "sr_added (fst (syncGatewayListFromKV http' listId w')) = Some 0"
    by (simp add: eq)
  show "sr_removed (fst (syncGatewayListFromKV http' listId w')) = Some 0"
    by (simp add: eq)
  show "list_all (\<lambda>e. \<not> mutates e) (since w' (snd (syncGatewayListFromKV http' listId w')))"
    unfolding eq snd_conv by (rule run_since [OF sync_after_fetch_reads])
qed

lemma remote_ba_items_reply:
  "page_reply remote_ba (listItemsRequest l p)
     = json (page_of (ItemsResult [item ''b@x.com'', item ''a@x.com'']) p 1)"
  by (rule page_reply_first_attempt) (simp_all add: remote_ba_def listItemsRequest_def page_of_def)

lemma remote_ba_fetched:
  "fst (fetchGatewayListItems remote_ba l level w) =
     \<lparr>ir_riskLevel = level, ir_listId = l, ir_items = [item ''b@x.com'', item ''a@x.com''],
      ir_pagination = Some (2, 1, 1), ir_error = None\<rparr>"
  using fetchGatewayListItems_single_page [of remote_ba l _ "[item ''b@x.com'', item ''a@x.com'']" level w]
  by (simp add: remote_ba_items_reply page_of_def result_items_def js_less_def)

theorem sync_idempotent_witness:
  "kv w_ab (kvKey ''l'') = Some st_ab
   \<and> \<not> js_truthy (ir_error (sync_fetched remote_bc ''l'' w_ab))
   \<and> sr_added (fst (syncGatewayListFromKV remote_bc ''l'' w_ab)) = Some 1
   \<and> sr_removed (fst (syncGatewayListFromKV remote_bc ''l'' w_ab)) = Some 1
   \<and> \<not> js_truthy (ir_error
         (sync_fetched remote_ba ''l'' (snd (syncGatewayListFromKV remote_bc ''l'' w_ab))))
   \<and> membership (ir_items
         (sync_fetched remote_ba ''l'' (snd (syncGatewayListFromKV remote_bc ''l'' w_ab))))
       = membership (remote_apply_patch
           (req_body (sync_patch ''l'' st_ab (sync_fetched remote_bc ''l'' w_ab)))
           (ir_items (sync_fetched remote_bc ''l'' w_ab)))
   \<and> sr_success (fst (syncGatewayListFromKV remote_ba ''l''
         (snd (syncGatewayListFromKV remote_bc ''l'' w_ab))))
   \<and> sr_added (fst (syncGatewayListFromKV remote_ba ''l''
         (snd (syncGatewayListFromKV remote_bc ''l'' w_ab)))) = Some 0
   \<and> sr_removed (fst (syncGatewayListFromKV remote_ba ''l''
         (snd (syncGatewayListFromKV remote_bc ''l'' w_ab)))) = Some 0"
proof -
  define w' where "w' = snd (syncGatewayListFromKV remote_bc ''l'' w_ab)"
  have f: "sync_fetched remote_bc ''l'' w_ab =
     \<lparr>ir_riskLevel = None, ir_listId = ''l'', ir_items = [item ''b@x.com'', item ''c@x.com''],
      ir_pagination = Some (2, 1, 1), ir_error = None\<rparr>"
    by (simp add: sync_fetched_def remote_bc_fetched)
  have f': "sync_fetched remote_ba ''l'' w' =
     \<lparr>ir_riskLevel = None, ir_listId = ''l'', ir_items = [item ''b@x.com'', item ''a@x.com''],
      ir_pagination = Some (2, 1, 1), ir_error = None\<rparr>"
    by (simp add: sync_fetched_def remote_ba_fetched)
  have e: "emails st_ab = [''a@x.com'', ''b@x.com'']"
    by (simp add: st_ab_def expectedStateOf_def alice_def bob_def)
  have d: "sync_toAdd st_ab (sync_fetched remote_bc ''l'' w_ab) = [''a@x.com'']"
      "sync_toRemove st_ab (sync_fetched remote_bc ''l'' w_ab) = [''c@x.com'']"
    by (simp_all add: f e sync_toAdd_def sync_toRemove_def emailsToAdd_def emailsToRemove_def
        new_Set_def item_def)
  have p: "page_reply remote_bc (sync_patch ''l'' st_ab (sync_fetched remote_bc ''l'' w_ab))
      = json (page_of NoResult 1 1)"
    by (rule page_reply_first_attempt)
      (simp_all add: remote_bc_def sync_patch_def patchRequest_def page_of_def)
  have first: "sr_added (fst (syncGatewayListFromKV remote_bc ''l'' w_ab)) = Some 1
      \<and> sr_removed (fst (syncGatewayListFromKV remote_bc ''l'' w_ab)) = Some 1"
    using syncGatewayListFromKV_fetched [of w_ab "''l''" st_ab remote_bc] kv_w_ab
      sync_changes_patch(2) [of st_ab "sync_fetched remote_bc ''l'' w_ab" remote_bc "''l''"
        "sync_after_fetch remote_bc ''l'' w_ab"]
    by (simp add: d p page_of_def) (simp add: f js_truthy_def)
  have m: "membership (ir_items (sync_fetched remote_ba ''l'' w'))
       = membership (remote_apply_patch
           (req_body (sync_patch ''l'' st_ab (sync_fetched remote_bc ''l'' w_ab)))
           (ir_items (sync_fetched remote_bc ''l'' w_ab)))"
    unfolding membership_remote_apply
    by (simp add: sync_patch_def patchRequest_def patch_append_values_patchBody
        patch_remove_values_patchBody d)
      (auto simp: f f' membership_def item_def)
  show ?thesis
    using sync_idempotent [of w_ab "''l''" st_ab remote_bc w' remote_ba] kv_w_ab first m
    unfolding w'_def [symmetric]
    by (simp add: f f' js_truthy_def)
qed









section \<open>Properties of the scheduled cycle\<close>

lemma kvKey_inject: "kvKey a = kvKey b \<longleftrightarrow> a = b"
  by (simp add: kvKey_def)

lemma put_accepted_storeExpectedStateInKV:
  "put_accepted (snd (storeExpectedStateInKV listId users level now w)) k = put_accepted w k"
  using put_accepted_kv_put [of "kvKey listId" "expectedStateOf users level now" None w k]
  by (simp add: storeExpectedStateInKV_def case_prod_beta split: option.splits)

lemma kv_handleRequest_notfetch:
  assumes "rr_success (fst (fetchAllUserRiskScores http w))"
    and "rr_users (fst (fetchAllUserRiskScores http w)) = Some us"
    and "put_accepted w (kvKey highId)" and "put_accepted w (kvKey mediumId)"
    and "put_accepted w (kvKey lowId)"
  shows "kv (snd (handleRequest_notfetch http highId mediumId lowId t1 t2 t3 w))
     = (kv w)(kvKey highId \<mapsto> expectedStateOf (highRiskUsers us) ''high'' t1,
              kvKey mediumId \<mapsto> expectedStateOf (mediumRiskUsers us) ''medium'' t2,
              kvKey lowId \<mapsto> expectedStateOf (lowRiskUsers us) ''low'' t3)"
proof -
  define w1 where "w1 = snd (fetchAllUserRiskScores http w)"
  define w2 where "w2 = snd (storeExpectedStateInKV highId (highRiskUsers us) ''high'' t1 w1)"
  define w3 where "w3 = snd (storeExpectedStateInKV mediumId (mediumRiskUsers us) ''medium'' t2 w2)"
  define w4 where "w4 = snd (storeExpectedStateInKV lowId (lowRiskUsers us) ''low'' t3 w3)"
  have r1: "run (bounded_reads 100) w w1"
    unfolding w1_def by (rule fetchAllUserRiskScores_bounded)
  have k1: "kv w1 = kv w"
    by (rule run_kv [OF r1])
  have a1: "put_accepted w1 k = put_accepted w k" for k
    by (rule put_accepted_run [OF r1])
  have k2: "kv w2 = (kv w1)(kvKey highId \<mapsto> expectedStateOf (highRiskUsers us) ''high'' t1)"
    unfolding w2_def by (rule kv_storeExpectedStateInKV) (simp add: a1 assms(3))
  have a2: "put_accepted w2 k = put_accepted w k" for k
    unfolding w2_def by (simp add: put_accepted_storeExpectedStateInKV a1)
  have k3: "kv w3 = (kv w2)(kvKey mediumId \<mapsto> expectedStateOf (mediumRiskUsers us) ''medium'' t2)"
    unfolding w3_def by (rule kv_storeExpectedStateInKV) (simp add: a2 assms(4))
  have a3: "put_accepted w3 k = put_accepted w k" for k
    unfolding w3_def by (simp add: put_accepted_storeExpectedStateInKV a2)
  have k4: "kv w4 = (kv w3)(kvKey lowId \<mapsto> expectedStateOf (lowRiskUsers us) ''low'' t3)"
    unfolding w4_def by (rule kv_storeExpectedStateInKV) (simp add: a3 assms(5))
  have "kv (snd (handleRequest_notfetch http highId mediumId lowId t1 t2 t3 w)) = kv w4"
    using assms(1,2)
    by (simp add: handleRequest_notfetch_def case_prod_beta Let_def kv_syncGatewayListFromKV
        w1_def w2_def w3_def w4_def)
  then show ?thesis
    by (simp add: k4 k3 k2 k1)
qed

text \<open>
  Without the binding (the call from updateRiskListsAPI) the cycle fetches the risk scores
  and nothing else: each put and each get throws before any call is made, so no snapshot
  is written and each sync returns the message of the TypeError.
\<close>

lemma storeExpectedStateInKV_unbound:
  "USER_RISK_KV w = None \<Longrightarrow>
     storeExpectedStateInKV listId users level now w =
       (\<lparr>st_success = False, st_userCount = None,
         st_error = Some ''Cannot read properties of undefined (reading 'put')''\<rparr>, w)"
  by (simp add: storeExpectedStateInKV_def kv_put_def)

lemma syncGatewayListFromKV_unbound:
  "USER_RISK_KV w = None \<Longrightarrow>
     syncGatewayListFromKV http listId w =
       (sync_failed (ErrorText ''Cannot read properties of undefined (reading 'get')''), w)"
  by (simp add: syncGatewayListFromKV_def kv_get_def)

lemma handleRequest_notfetch_unbound:
  assumes "USER_RISK_KV w = None" and "rr_success (fst (fetchAllUserRiskScores http w))"
  shows "handleRequest_notfetch http highId mediumId lowId t1 t2 t3 w =
     (Some (sync_failed (ErrorText ''Cannot read properties of undefined (reading 'get')''),
            sync_failed (ErrorText ''Cannot read properties of undefined (reading 'get')''),
            sync_failed (ErrorText ''Cannot read properties of undefined (reading 'get')'')),
      snd (fetchAllUserRiskScores http w))"
proof -
  have b: "USER_RISK_KV (snd (fetchAllUserRiskScores http w)) = None"
    using run_binding [OF fetchAllUserRiskScores_bounded [of w http]] assms(1) by simp
  show ?thesis
    using assms(2)
    by (simp add: handleRequest_notfetch_def case_prod_beta Let_def
        storeExpectedStateInKV_unbound [OF b] syncGatewayListFromKV_unbound [OF b])
qed

lemma emails_expectedStateOf: "emails (expectedStateOf users level now) = map user_email users"
  by (simp add: expectedStateOf_def)

lemma email_in_tier:
  assumes "u \<in> set us"
    and "\<forall>v \<in> set us. user_email v = user_email u \<longrightarrow> max_risk_level v = max_risk_level u"
  shows "user_email u \<in> set (map user_email (filter (\<lambda>v. max_risk_level v = lv) us))
      \<longleftrightarrow> max_risk_level u = lv"
proof
  assume "user_email u \<in> set (map user_email (filter (\<lambda>v. max_risk_level v = lv) us))"
  then obtain v where v: "v \<in> set us" "max_risk_level v = lv" "user_email v = user_email u"
    by (auto simp only: set_map set_filter image_iff mem_Collect_eq)
  then show "max_risk_level u = lv"
    using assms(2) by (metis (no_types))
next
  assume "max_risk_level u = lv"
  then have "u \<in> set (filter (\<lambda>v. max_risk_level v = lv) us)"
    using assms(1) by simp
  then show "user_email u \<in> set (map user_email (filter (\<lambda>v. max_risk_level v = lv) us))"
    by (simp only: set_map) (rule imageI)
qed

lemma record_in_tier:
  "u \<in> set us \<Longrightarrow> u \<in> set (filter (\<lambda>v. max_risk_level v = lv) us) \<longleftrightarrow> max_risk_level u = lv"
  by simp

text \<open>
  C6. Let u be a user of the fetched users us whose max_risk_level is one of high, medium
  and low. The record u is in the filter of the tier that equals its max_risk_level and
  in no other, so in exactly one of the three, and its email is in the email list stored
  for that tier. When no record of another level carries the same email, the email is
  in the stored list of that tier only: in exactly one of the three. In a cycle whose
  risk fetch succeeds with us, whose three list ids differ and whose three puts the
  namespace accepts, these three lists are the snapshots the cycle leaves in KV.
\<close>

theorem tier_exclusivity:
  assumes "u \<in> set us"
    and "max_risk_level u \<in> {''high'', ''medium'', ''low''}"
  shows "(u \<in> set (highRiskUsers us) \<longleftrightarrow> max_risk_level u = ''high'')
       \<and> (u \<in> set (mediumRiskUsers us) \<longleftrightarrow> max_risk_level u = ''medium'')
       \<and> (u \<in> set (lowRiskUsers us) \<longleftrightarrow> max_risk_level u = ''low'')
       \<and> length (filter (\<lambda>tier. u \<in> set tier)
            [highRiskUsers us, mediumRiskUsers us, lowRiskUsers us]) = 1
       \<and> (max_risk_level u = ''high'' \<longrightarrow>
            user_email u \<in> set (emails (expectedStateOf (highRiskUsers us) ''high'' t1)))
       \<and> (max_risk_level u = ''medium'' \<longrightarrow>
            user_email u \<in> set (emails (expectedStateOf (mediumRiskUsers us) ''medium'' t2)))
       \<and> (max_risk_level u = ''low'' \<longrightarrow>
            user_email u \<in> set (emails (expectedStateOf (lowRiskUsers us) ''low'' t3)))
       \<and> ((\<forall>v \<in> set us. user_email v = user_email u \<longrightarrow> max_risk_level v = max_risk_level u) \<longrightarrow>
            (user_email u \<in> set (emails (expectedStateOf (highRiskUsers us) ''high'' t1))
               \<longleftrightarrow> max_risk_level u = ''high'')
          \<and> (user_email u \<in> set (emails (expectedStateOf (mediumRiskUsers us) ''medium'' t2))
               \<longleftrightarrow> max_risk_level u = ''medium'')
          \<and> (user_email u \<in> set (emails (expectedStateOf (lowRiskUsers us) ''low'' t3))
               \<longleftrightarrow> max_risk_level u = ''low'')
          \<and> length (filter (\<lambda>s. user_email u \<in> set (emails s))
               [expectedStateOf (highRiskUsers us) ''high'' t1,
                expectedStateOf (mediumRiskUsers us) ''medium'' t2,
                expectedStateOf (lowRiskUsers us) ''low'' t3]) = 1)
       \<and> (rr_success (fst (fetchAllUserRiskScores http w))
            \<and> rr_users (fst (fetchAllUserRiskScores http w)) = Some us
            \<and> distinct [highId, mediumId, lowId]
            \<and> put_accepted w (kvKey highId) \<and> put_accepted w (kvKey mediumId)
            \<and> put_accepted w (kvKey lowId) \<longrightarrow>
            kv (snd (handleRequest_notfetch http highId mediumId lowId t1 t2 t3 w)) (kvKey highId)
              = Some (expectedStateOf (highRiskUsers us) ''high'' t1)
          \<and> kv (snd (handleRequest_notfetch http highId mediumId lowId t1 t2 t3 w)) (kvKey mediumId)
              = Some (expectedStateOf (mediumRiskUsers us) ''medium'' t2)
          \<and> kv (snd (handleRequest_notfetch http highId mediumId lowId t1 t2 t3 w)) (kvKey lowId)
              = Some (expectedStateOf (lowRiskUsers us) ''low'' t3))"
proof -
  have rh: "u \<in> set (highRiskUsers us) \<longleftrightarrow> max_risk_level u = ''high''"
    unfolding highRiskUsers_def by (rule record_in_tier [OF assms(1)])
  have rm: "u \<in> set (mediumRiskUsers us) \<longleftrightarrow> max_risk_level u = ''medium''"
    unfolding mediumRiskUsers_def by (rule record_in_tier [OF assms(1)])
  have rl: "u \<in> set (lowRiskUsers us) \<longleftrightarrow> max_risk_level u = ''low''"
    unfolding lowRiskUsers_def by (rule record_in_tier [OF assms(1)])
  have lv: "max_risk_level u = ''high'' \<or> max_risk_level u = ''medium''
      \<or> max_risk_level u = ''low''"
    using assms(2) by simp
  then consider (h) "max_risk_level u = ''high''" | (m) "max_risk_level u = ''medium''"
    | (l) "max_risk_level u = ''low''"
    by blast
  then have rone: "length (filter (\<lambda>tier. u \<in> set tier)
            [highRiskUsers us, mediumRiskUsers us, lowRiskUsers us]) = 1"
    by cases (simp_all add: rh rm rl)
  have own: "v \<in> set tier \<Longrightarrow> user_email v \<in> set (emails (expectedStateOf tier lv t))" for v tier lv t
    unfolding emails_expectedStateOf by simp
  have oh: "max_risk_level u = ''high'' \<longrightarrow>
            user_email u \<in> set (emails (expectedStateOf (highRiskUsers us) ''high'' t1))"
    using rh own by blast
  have om: "max_risk_level u = ''medium'' \<longrightarrow>
            user_email u \<in> set (emails (expectedStateOf (mediumRiskUsers us) ''medium'' t2))"
    using rm own by blast
  have ol: "max_risk_level u = ''low'' \<longrightarrow>
            user_email u \<in> set (emails (expectedStateOf (lowRiskUsers us) ''low'' t3))"
    using rl own by blast
  have uniq: "(user_email u \<in> set (emails (expectedStateOf (highRiskUsers us) ''high'' t1))
               \<longleftrightarrow> max_risk_level u = ''high'')
          \<and> (user_email u \<in> set (emails (expectedStateOf (mediumRiskUsers us) ''medium'' t2))
               \<longleftrightarrow> max_risk_level u = ''medium'')
          \<and> (user_email u \<in> set (emails (expectedStateOf (lowRiskUsers us) ''low'' t3))
               \<longleftrightarrow> max_risk_level u = ''low'')
          \<and> length (filter (\<lambda>s. user_email u \<in> set (emails s))
               [expectedStateOf (highRiskUsers us) ''high'' t1,
                expectedStateOf (mediumRiskUsers us) ''medium'' t2,
                expectedStateOf (lowRiskUsers us) ''low'' t3]) = 1"
    if same: "\<forall>v \<in> set us. user_email v = user_email u \<longrightarrow> max_risk_level v = max_risk_level u"
  proof -
    have eh: "user_email u \<in> set (emails (expectedStateOf (highRiskUsers us) ''high'' t1))
            \<longleftrightarrow> max_risk_level u = ''high''"
      unfolding emails_expectedStateOf highRiskUsers_def
      by (rule email_in_tier [OF assms(1) same])
    have em: "user_email u \<in> set (emails (expectedStateOf (mediumRiskUsers us) ''medium'' t2))
            \<longleftrightarrow> max_risk_level u = ''medium''"
      unfolding emails_expectedStateOf mediumRiskUsers_def
      by (rule email_in_tier [OF assms(1) same])
    have el: "user_email u \<in> set (emails (expectedStateOf (lowRiskUsers us) ''low'' t3))
            \<longleftrightarrow> max_risk_level u = ''low''"
      unfolding emails_expectedStateOf lowRiskUsers_def
      by (rule email_in_tier [OF assms(1) same])
    from lv consider (h) "max_risk_level u = ''high''" | (m) "max_risk_level u = ''medium''"
      | (l) "max_risk_level u = ''low''"
      by blast
    then have "length (filter (\<lambda>s. user_email u \<in> set (emails s))
               [expectedStateOf (highRiskUsers us) ''high'' t1,
                expectedStateOf (mediumRiskUsers us) ''medium'' t2,
                expectedStateOf (lowRiskUsers us) ''low'' t3]) = 1"
      by cases (simp_all add: eh em el)
    then show ?thesis
      using eh em el by simp
  qed
  have kvs: "kv (snd (handleRequest_notfetch http highId mediumId lowId t1 t2 t3 w)) (kvKey highId)
              = Some (expectedStateOf (highRiskUsers us) ''high'' t1)
          \<and> kv (snd (handleRequest_notfetch http highId mediumId lowId t1 t2 t3 w)) (kvKey mediumId)
              = Some (expectedStateOf (mediumRiskUsers us) ''medium'' t2)
          \<and> kv (snd (handleRequest_notfetch http highId mediumId lowId t1 t2 t3 w)) (kvKey lowId)
              = Some (expectedStateOf (lowRiskUsers us) ''low'' t3)"
    if c: "rr_success (fst (fetchAllUserRiskScores http w))
            \<and> rr_users (fst (fetchAllUserRiskScores http w)) = Some us
            \<and> distinct [highId, mediumId, lowId]
            \<and> put_accepted w (kvKey highId) \<and> put_accepted w (kvKey mediumId)
            \<and> put_accepted w (kvKey lowId)"
  proof -
    from c have c1: "rr_success (fst (fetchAllUserRiskScores http w))"
      and c2: "rr_users (fst (fetchAllUserRiskScores http w)) = Some us"
      and c3: "distinct [highId, mediumId, lowId]"
      and c4: "put_accepted w (kvKey highId)" and c5: "put_accepted w (kvKey mediumId)"
      and c6: "put_accepted w (kvKey lowId)"
      by blast+
    show ?thesis
      using c3 by (simp add: kv_handleRequest_notfetch [OF c1 c2 c4 c5 c6] kvKey_inject)
  qed
  have part1: "(u \<in> set (highRiskUsers us) \<longleftrightarrow> max_risk_level u = ''high'')
       \<and> (u \<in> set (mediumRiskUsers us) \<longleftrightarrow> max_risk_level u = ''medium'')
       \<and> (u \<in> set (lowRiskUsers us) \<longleftrightarrow> max_risk_level u = ''low'')
       \<and> length (filter (\<lambda>tier. u \<in> set tier)
            [highRiskUsers us, mediumRiskUsers us, lowRiskUsers us]) = 1"
    using rh rm rl rone by (intro conjI)
  show ?thesis
    by (intro conjI impI) (use part1 oh om ol uniq kvs in \<open>blast+\<close>)
qed

lemma fetchAllUserRiskScores_single_page:
  assumes "page_reply http (riskPageRequest 1) = Inr d" and "data_success d"
    and "\<not> js_less (data_page d) (data_total_pages d)"
  shows "fst (fetchAllUserRiskScores http w) =
     \<lparr>rr_success = True, rr_users = Some (result_users (data_result d)), rr_errors = None,
      rr_pagination = Some (length (result_users (data_result d)), 1, 1)\<rparr>"
  unfolding fetchAllUserRiskScores_def using assms
  by (subst fetchAllUserRiskScores_loop.simps)
    (simp add: case_prod_beta page_reply_eq fetchAllUserRiskScores_loop_exit)

lemma remote_bc_risk_reply:
  "page_reply remote_bc (riskPageRequest p) = json (page_of (UsersResult [alice, bob]) p 1)"
  by (rule page_reply_first_attempt) (simp_all add: remote_bc_def riskPageRequest_def page_of_def)

lemma remote_bc_users:
  "fst (fetchAllUserRiskScores remote_bc w) =
     \<lparr>rr_success = True, rr_users = Some [alice, bob], rr_errors = None,
      rr_pagination = Some (2, 1, 1)\<rparr>"
  using fetchAllUserRiskScores_single_page [of remote_bc _ w]
  by (simp add: remote_bc_risk_reply page_of_def js_less_def result_users_def)

theorem tier_exclusivity_witness:
  "alice \<in> set [alice, bob]
   \<and> max_risk_level alice = ''high''
   \<and> alice \<in> set (highRiskUsers [alice, bob])
   \<and> alice \<notin> set (mediumRiskUsers [alice, bob])
   \<and> alice \<notin> set (lowRiskUsers [alice, bob])
   \<and> user_email alice \<in> set (emails (expectedStateOf (highRiskUsers [alice, bob]) ''high'' ''t1''))
   \<and> user_email alice \<notin> set (emails (expectedStateOf (mediumRiskUsers [alice, bob]) ''medium'' ''t2''))
   \<and> user_email alice \<notin> set (emails (expectedStateOf (lowRiskUsers [alice, bob]) ''low'' ''t3''))
   \<and> rr_success (fst (fetchAllUserRiskScores remote_bc w0))
   \<and> rr_users (fst (fetchAllUserRiskScores remote_bc w0)) = Some [alice, bob]
   \<and> distinct [''h'', ''m'', ''l'']
   \<and> put_accepted w0 (kvKey ''h'') \<and> put_accepted w0 (kvKey ''m'')
   \<and> put_accepted w0 (kvKey ''l'')
   \<and> map_option emails
         (kv (snd (handleRequest_notfetch remote_bc ''h'' ''m'' ''l'' ''t1'' ''t2'' ''t3'' w0))
            (kvKey ''h'')) = Some [''a@x.com'']
   \<and> map_option emails
         (kv (snd (handleRequest_notfetch remote_bc ''h'' ''m'' ''l'' ''t1'' ''t2'' ''t3'' w0))
            (kvKey ''m'')) = Some []
   \<and> map_option emails
         (kv (snd (handleRequest_notfetch remote_bc ''h'' ''m'' ''l'' ''t1'' ''t2'' ''t3'' w0))
            (kvKey ''l'')) = Some [''b@x.com'']"
proof -
  have same: "\<forall>v \<in> set [alice, bob]. user_email v = user_email alice
      \<longrightarrow> max_risk_level v = max_risk_level alice"
    by (simp add: alice_def bob_def)
  have lv: "max_risk_level alice \<in> {''high'', ''medium'', ''low''}"
    and hi: "max_risk_level alice = ''high''"
    by (simp_all add: alice_def)
  have f: "rr_success (fst (fetchAllUserRiskScores remote_bc w0))
      \<and> rr_users (fst (fetchAllUserRiskScores remote_bc w0)) = Some [alice, bob]
      \<and> distinct [''h'', ''m'', ''l'']
      \<and> put_accepted w0 (kvKey ''h'') \<and> put_accepted w0 (kvKey ''m'')
      \<and> put_accepted w0 (kvKey ''l'')"
    by (simp add: remote_bc_users put_accepted_w0)
  have a: "alice \<in> set [alice, bob]"
    by simp
  note T = tier_exclusivity [OF a lv, of "''t1''" "''t2''" "''t3''" remote_bc w0 "''h''" "''m''" "''l''"]
  have r: "alice \<in> set (highRiskUsers [alice, bob])
      \<and> alice \<notin> set (mediumRiskUsers [alice, bob])
      \<and> alice \<notin> set (lowRiskUsers [alice, bob])"
    using T hi by simp
  have e: "user_email alice \<in> set (emails (expectedStateOf (highRiskUsers [alice, bob]) ''high'' ''t1''))
      \<and> user_email alice \<notin> set (emails (expectedStateOf (mediumRiskUsers [alice, bob]) ''medium'' ''t2''))
      \<and> user_email alice \<notin> set (emails (expectedStateOf (lowRiskUsers [alice, bob]) ''low'' ''t3''))"
    using T same hi by simp
  have k: "kv (snd (handleRequest_notfetch remote_bc ''h'' ''m'' ''l'' ''t1'' ''t2'' ''t3'' w0))
          (kvKey ''h'') = Some (expectedStateOf (highRiskUsers [alice, bob]) ''high'' ''t1'')"
      "kv (snd (handleRequest_notfetch remote_bc ''h'' ''m'' ''l'' ''t1'' ''t2'' ''t3'' w0))
          (kvKey ''m'') = Some (expectedStateOf (mediumRiskUsers [alice, bob]) ''medium'' ''t2'')"
      "kv (snd (handleRequest_notfetch remote_bc ''h'' ''m'' ''l'' ''t1'' ''t2'' ''t3'' w0))
          (kvKey ''l'') = Some (expectedStateOf (lowRiskUsers [alice, bob]) ''low'' ''t3'')"
    using T f by blast+
  have em: "map_option emails
         (kv (snd (handleRequest_notfetch remote_bc ''h'' ''m'' ''l'' ''t1'' ''t2'' ''t3'' w0))
            (kvKey ''h'')) = Some [''a@x.com'']
      \<and> map_option emails
         (kv (snd (handleRequest_notfetch remote_bc ''h'' ''m'' ''l'' ''t1'' ''t2'' ''t3'' w0))
            (kvKey ''m'')) = Some []
      \<and> map_option emails
         (kv (snd (handleRequest_notfetch remote_bc ''h'' ''m'' ''l'' ''t1'' ''t2'' ''t3'' w0))
            (kvKey ''l'')) = Some [''b@x.com'']"
    by (simp add: k emails_expectedStateOf highRiskUsers_def mediumRiskUsers_def
        lowRiskUsers_def alice_def bob_def)
  show ?thesis
    by (intro conjI) (use a hi r e f em in \<open>blast+\<close>)
qed

section \<open>Properties of the consistency checker\<close>

lemma remote_step_read: "\<not> mutates e \<Longrightarrow> remote_step store e = store"
  by (cases e) (auto simp: remote_step_def mutates_def split: target.splits http_method.splits)

lemma remote_after_reads: "list_all (\<lambda>e. \<not> mutates e) tr \<Longrightarrow> remote_after tr store = store"
  unfolding remote_after_def
  by (induction tr arbitrary: store) (simp_all add: remote_step_read)

lemma reads_append:
  "list_all (\<lambda>e. \<not> mutates e) a \<Longrightarrow> list_all (\<lambda>e. \<not> mutates e) b
     \<Longrightarrow> list_all (\<lambda>e. \<not> mutates e) (a @ b)"
  by simp

lemma handleReconciliation_loop_reads:
  "run (list_all (\<lambda>e. \<not> mutates e)) w
     (snd (handleReconciliation_loop http listIds reconciliationResults w))"
proof (induction listIds arbitrary: reconciliationResults w)
  case Nil
  show ?case by (simp add: run_nil)
next
  case (Cons a listIds)
  obtain listId listName where a: "a = (listId, listName)"
    by (cases a)
  have get: "run (list_all (\<lambda>e. \<not> mutates e)) w (emit (KVGet (kvKey listId)) w)"
    by (rule run_emit) (simp add: mutates_def)
  have fetched: "run (list_all (\<lambda>e. \<not> mutates e)) w (sync_after_fetch http listId w)"
    by (rule sync_after_fetch_reads)
  have skip: "run (list_all (\<lambda>e. \<not> mutates e)) w
      (snd (handleReconciliation_loop http listIds rs (emit (KVGet (kvKey listId)) w)))" for rs
    using get Cons.IH by (rule run_seq) (rule reads_append)
  have more: "run (list_all (\<lambda>e. \<not> mutates e)) w
      (snd (handleReconciliation_loop http listIds rs (sync_after_fetch http listId w)))" for rs
    using fetched Cons.IH by (rule run_seq) (rule reads_append)
  consider (thrown) msg where "kv_get (kvKey listId) w = (Inl msg, w)"
    | (read) "kv_get (kvKey listId) w = (Inr (kv w (kvKey listId)), emit (KVGet (kvKey listId)) w)"
    using kv_get_cases [of "kvKey listId" w] by blast
  then show ?case
  proof cases
    case thrown
    then show ?thesis
      by (simp add: a run_nil)
  next
    case read
    then show ?thesis
      using skip more
      by (simp add: a case_prod_beta sync_after_fetch_def split: option.splits)
  qed
qed

text \<open>
  The loop never adds an entry: the test of \<open>currentItemsResult.success\<close> sends every list
  to \<open>continue\<close>.
\<close>

lemma handleReconciliation_loop_results:
  "fst (handleReconciliation_loop http listIds reconciliationResults w) = Inr reconciliationResults
     \<or> (\<exists>msg. fst (handleReconciliation_loop http listIds reconciliationResults w) = Inl msg)"
proof (induction listIds arbitrary: reconciliationResults w)
  case Nil
  show ?case by simp
next
  case (Cons a listIds)
  obtain listId listName where a: "a = (listId, listName)"
    by (cases a)
  consider (thrown) msg where "kv_get (kvKey listId) w = (Inl msg, w)"
    | (read) "kv_get (kvKey listId) w = (Inr (kv w (kvKey listId)), emit (KVGet (kvKey listId)) w)"
    using kv_get_cases [of "kvKey listId" w] by blast
  then show ?case
  proof cases
    case thrown
    then show ?thesis
      by (simp add: a)
  next
    case read
    then show ?thesis
      using Cons.IH
      by (simp add: a case_prod_beta ir_success_def split: option.splits)
  qed
qed

text \<open>
  C9. handleReconciliation never writes: the KV map after it is the KV map before it, the
  trace it appends to the log holds no KV put and no fetch of a request whose method is
  not GET, and so a remote store that only such requests change is the same after it.
  This holds for every answer of the API and whatever the comparison finds.
\<close>

theorem handleReconciliation_read_only:
  "kv (snd (handleReconciliation http highRiskListId mediumRiskListId lowRiskListId now w)) = kv w
   \<and> list_all (\<lambda>e. \<not> mutates e)
        (since w (snd (handleReconciliation http highRiskListId mediumRiskListId lowRiskListId now w)))
   \<and> remote_after
        (since w (snd (handleReconciliation http highRiskListId mediumRiskListId lowRiskListId now w)))
        store = store"
proof -
  have r: "run (list_all (\<lambda>e. \<not> mutates e)) w
      (snd (handleReconciliation http highRiskListId mediumRiskListId lowRiskListId now w))"
    using handleReconciliation_loop_reads
      [of w http "[(highRiskListId, ''high''), (mediumRiskListId, ''medium''),
                   (lowRiskListId, ''low'')]" "[]"]
    by (simp add: handleReconciliation_def case_prod_beta split: sum.splits)
  show ?thesis
    using run_kv [OF r] run_since [OF r] remote_after_reads [OF run_since [OF r]] by simp
qed

section \<open>Page failures of the list fetch\<close>

lemma makeApiRequest_from_network_error:
  assumes "\<And>a. http req a = NetworkError msg" and "a \<le> m"
  shows "fst (makeApiRequest_from http req m a w) = Threw msg"
  using assms(2)
proof (induction "m - a" arbitrary: a w)
  case 0
  then have "a = m" by simp
  then show ?case
    using assms(1) [of m]
    by (simp add: makeApiRequest_from.simps [of http req m m w])
next
  case (Suc n)
  then have lt: "a < m" and n: "n = m - Suc a" by simp_all
  show ?case
    using lt assms(1) [of a] Suc.hyps(1) [OF n]
    by (simp add: makeApiRequest_from.simps [of http req m a w])
qed

lemma page_reply_network_error:
  assumes "\<And>a. http req a = NetworkError msg"
  shows "page_reply http req = Inl msg"
  using makeApiRequest_from_network_error [of http req msg 1 3] assms
  by (simp add: page_reply_def makeApiRequest_def json_of_def)

lemma collected_before_Cons:
  "a < k \<Longrightarrow> collected_before http listId a k
     = page_items http listId a @ collected_before http listId (Suc a) k"
  by (simp add: collected_before_def upt_conv_Cons)

lemma fetchGatewayListItems_loop_failure:
  assumes "page \<le> k" and "n + (k - page) < 50"
    and "\<forall>j. page \<le> j \<and> j < k \<longrightarrow>
           items_page_ok (page_reply http (listItemsRequest listId j))
           \<and> reports_more (page_reply http (listItemsRequest listId j))"
  shows "(page_reply http (listItemsRequest listId k) = Inl msg \<longrightarrow>
            fst (fetchGatewayListItems_loop http listId page True n allItems w) = Inl msg)
       \<and> ((\<exists>d. page_reply http (listItemsRequest listId k) = Inr d \<and> \<not> data_success d) \<longrightarrow>
            fst (fetchGatewayListItems_loop http listId page True n allItems w)
              = Inr (allItems @ collected_before http listId page k, n + (k - page) + 1, k))"
  using assms
proof (induction "k - page" arbitrary: page n allItems w)
  case 0
  then have pk: "page = k" and n: "n < 50"
    by simp_all
  show ?case
    unfolding pk using n
    by (subst (1 2) fetchGatewayListItems_loop.simps)
      (auto simp: case_prod_beta page_reply_eq collected_before_def)
next
  case (Suc m)
  then have lt: "page < k" and m: "m = k - Suc page" and n: "n < 50"
    by simp_all
  have cont: "items_page_ok (page_reply http (listItemsRequest listId page))"
      "reports_more (page_reply http (listItemsRequest listId page))"
    using Suc.prems(3) lt by auto
  obtain d its where d: "page_reply http (listItemsRequest listId page) = Inr d" "data_success d"
      "result_items (data_result d) = Inr its" "js_less (data_page d) (data_total_pages d)"
    using cont by (auto simp: items_page_ok_def reports_more_def split: sum.splits)
  define w1 where "w1 = snd (makeApiRequest http (listItemsRequest listId page) 3 w)"
  have unfold: "fetchGatewayListItems_loop http listId page True n allItems w =
      fetchGatewayListItems_loop http listId (Suc page) True (Suc n)
        (allItems @ its) (emit (Sleep (Millis 50)) w1)"
    using n d
    by (subst fetchGatewayListItems_loop.simps)
      (simp add: case_prod_beta page_reply_eq w1_def)
  have its: "page_items http listId page = its"
    using d by (simp add: page_items_def)
  have ih: "(page_reply http (listItemsRequest listId k) = Inl msg \<longrightarrow>
            fst (fetchGatewayListItems_loop http listId (Suc page) True (Suc n) (allItems @ its)
                   (emit (Sleep (Millis 50)) w1)) = Inl msg)
       \<and> ((\<exists>d. page_reply http (listItemsRequest listId k) = Inr d \<and> \<not> data_success d) \<longrightarrow>
            fst (fetchGatewayListItems_loop http listId (Suc page) True (Suc n) (allItems @ its)
                   (emit (Sleep (Millis 50)) w1))
              = Inr ((allItems @ its) @ collected_before http listId (Suc page) k,
                     Suc n + (k - Suc page) + 1, k))"
    using Suc.prems lt by (intro Suc.hyps(1) [OF m]) auto
  have cnt: "Suc n + (k - Suc page) + 1 = n + (k - page) + 1"
    using lt by simp
  show ?case
    unfolding unfold using ih lt
    by (simp only: cnt collected_before_Cons [OF lt] its append_assoc)
qed

lemma sync_fetch_failed:
  assumes "kv w (kvKey listId) = Some st"
    and "js_truthy (ir_error (sync_fetched http listId w))"
  shows "syncGatewayListFromKV http listId w =
     (sync_failed (ErrorText (js_str (ir_error (sync_fetched http listId w)))),
      sync_after_fetch http listId w)"
  using assms
  by (simp add: syncGatewayListFromKV_def kv_get_Some [OF assms(1)] sync_fetched_def
      sync_after_fetch_def case_prod_beta)

text \<open>
  C3 (as amended). Let the pages before page k of a list succeed and report more pages.
  If the request for page k throws (a network error at the last attempt, an answer that is
  not JSON, or 429 at every attempt), fetchGatewayListItems stops there and returns no
  items at all, tagged with the message of the exception. If the API answers page k with
  success = false, it stops there and returns the items of the pages before k. A fetch
  tagged with a non-empty message makes syncGatewayListFromKV return a failure with that
  message, and the run writes nothing.
\<close>

theorem fetch_items_page_failure:
  assumes "1 \<le> k" and "k \<le> 50"
    and "\<forall>j. 1 \<le> j \<and> j < k \<longrightarrow>
           items_page_ok (page_reply http (listItemsRequest listId j))
           \<and> reports_more (page_reply http (listItemsRequest listId j))"
  shows "(page_reply http (listItemsRequest listId k) = Inl msg \<longrightarrow>
            fst (fetchGatewayListItems http listId level w) =
              \<lparr>ir_riskLevel = level, ir_listId = listId, ir_items = [],
               ir_pagination = None, ir_error = Some msg\<rparr>)
       \<and> ((\<exists>d. page_reply http (listItemsRequest listId k) = Inr d \<and> \<not> data_success d) \<longrightarrow>
            ir_items (fst (fetchGatewayListItems http listId level w))
              = collected_before http listId 1 k)
       \<and> (kv w' (kvKey listId) = Some st \<and> js_truthy (ir_error (sync_fetched http listId w')) \<longrightarrow>
            fst (syncGatewayListFromKV http listId w')
              = sync_failed (ErrorText (js_str (ir_error (sync_fetched http listId w'))))
            \<and> list_all (\<lambda>e. \<not> mutates e) (since w' (snd (syncGatewayListFromKV http listId w'))))"
proof (intro conjI impI)
  have loop: "(page_reply http (listItemsRequest listId k) = Inl msg \<longrightarrow>
            fst (fetchGatewayListItems_loop http listId 1 True 0 [] w) = Inl msg)
       \<and> ((\<exists>d. page_reply http (listItemsRequest listId k) = Inr d \<and> \<not> data_success d) \<longrightarrow>
            fst (fetchGatewayListItems_loop http listId 1 True 0 [] w)
              = Inr ([] @ collected_before http listId 1 k, 0 + (k - 1) + 1, k))"
    using assms by (intro fetchGatewayListItems_loop_failure) auto
  {
    assume "page_reply http (listItemsRequest listId k) = Inl msg"
    then have "fst (fetchGatewayListItems_loop http listId 1 True 0 [] w) = Inl msg"
      using loop by blast
    then show "fst (fetchGatewayListItems http listId level w) =
              \<lparr>ir_riskLevel = level, ir_listId = listId, ir_items = [],
               ir_pagination = None, ir_error = Some msg\<rparr>"
      by (cases "fetchGatewayListItems_loop http listId 1 True 0 [] w")
        (simp add: fetchGatewayListItems_def)
  }
  {
    assume "\<exists>d. page_reply http (listItemsRequest listId k) = Inr d \<and> \<not> data_success d"
    then have "fst (fetchGatewayListItems_loop http listId 1 True 0 [] w)
              = Inr ([] @ collected_before http listId 1 k, 0 + (k - 1) + 1, k)"
      using loop by blast
    then show "ir_items (fst (fetchGatewayListItems http listId level w))
              = collected_before http listId 1 k"
      by (cases "fetchGatewayListItems_loop http listId 1 True 0 [] w")
        (simp add: fetchGatewayListItems_def)
  }
  {
    assume h: "kv w' (kvKey listId) = Some st \<and> js_truthy (ir_error (sync_fetched http listId w'))"
    then have eq: "syncGatewayListFromKV http listId w' =
       (sync_failed (ErrorText (js_str (ir_error (sync_fetched http listId w')))),
        sync_after_fetch http listId w')"
      by (intro sync_fetch_failed) simp_all
    show "fst (syncGatewayListFromKV http listId w')
              = sync_failed (ErrorText (js_str (ir_error (sync_fetched http listId w'))))"
      by (simp add: eq)
    show "list_all (\<lambda>e. \<not> mutates e) (since w' (snd (syncGatewayListFromKV http listId w')))"
      unfolding eq snd_conv by (rule run_since [OF sync_after_fetch_reads])
  }
qed

lemma flaky_first_page:
  "p = 1 \<Longrightarrow> page_reply flaky (listItemsRequest l p)
     = json (page_of (ItemsResult [item ''b@x.com'']) 1 2)"
  by (rule page_reply_first_attempt) (simp_all add: flaky_def listItemsRequest_def page_of_def)

lemma flaky_second_page:
  "p = 2 \<Longrightarrow> page_reply flaky (listItemsRequest l p) = Inl ''connection reset''"
  by (rule page_reply_network_error) (simp add: flaky_def listItemsRequest_def)

lemma refusing_first_page:
  "p = 1 \<Longrightarrow> page_reply refusing (listItemsRequest l p)
     = json (page_of (ItemsResult [item ''b@x.com'']) 1 2)"
  by (rule page_reply_first_attempt) (simp_all add: refusing_def listItemsRequest_def page_of_def)

lemma refusing_second_page:
  "p = 2 \<Longrightarrow> page_reply refusing (listItemsRequest l p) = json refused"
  by (rule page_reply_first_attempt) (simp_all add: refusing_def listItemsRequest_def refused_def)

lemma collected_before_second: "collected_before http l 1 2 = page_items http l 1"
  by (simp add: collected_before_def numeral_2_eq_2)

lemma first_page_items:
  "p = 1 \<Longrightarrow> page_items flaky l p = [item ''b@x.com'']"
  "p = 1 \<Longrightarrow> page_items refusing l p = [item ''b@x.com'']"
  by (simp_all add: page_items_def flaky_first_page refusing_first_page page_of_def
      result_items_def)

lemma refusing_collected: "collected_before refusing l 1 2 = [item ''b@x.com'']"
  unfolding collected_before_second by (simp add: first_page_items)

lemma first_page_ok:
  "items_page_ok (json (page_of (ItemsResult its) 1 2))
   \<and> reports_more (json (page_of (ItemsResult its) 1 2))"
  by (simp add: items_page_ok_def reports_more_def page_of_def result_items_def js_less_def)

lemma flaky_pages_before:
  "\<forall>j. 1 \<le> j \<and> j < 2 \<longrightarrow>
     items_page_ok (page_reply flaky (listItemsRequest l j))
     \<and> reports_more (page_reply flaky (listItemsRequest l j))"
proof (intro allI impI)
  fix j :: nat
  assume "1 \<le> j \<and> j < 2"
  then have j: "j = 1" by simp
  show "items_page_ok (page_reply flaky (listItemsRequest l j))
     \<and> reports_more (page_reply flaky (listItemsRequest l j))"
    unfolding flaky_first_page [OF j] by (rule first_page_ok)
qed

lemma refusing_pages_before:
  "\<forall>j. 1 \<le> j \<and> j < 2 \<longrightarrow>
     items_page_ok (page_reply refusing (listItemsRequest l j))
     \<and> reports_more (page_reply refusing (listItemsRequest l j))"
proof (intro allI impI)
  fix j :: nat
  assume "1 \<le> j \<and> j < 2"
  then have j: "j = 1" by simp
  show "items_page_ok (page_reply refusing (listItemsRequest l j))
     \<and> reports_more (page_reply refusing (listItemsRequest l j))"
    unfolding refusing_first_page [OF j] by (rule first_page_ok)
qed

theorem fetch_items_page_failure_witness:
  "items_page_ok (page_reply flaky (listItemsRequest ''l'' 1))
   \<and> reports_more (page_reply flaky (listItemsRequest ''l'' 1))
   \<and> page_reply flaky (listItemsRequest ''l'' 2) = Inl ''connection reset''
   \<and> fst (fetchGatewayListItems flaky ''l'' None w0) =
        \<lparr>ir_riskLevel = None, ir_listId = ''l'', ir_items = [],
         ir_pagination = None, ir_error = Some ''connection reset''\<rparr>
   \<and> items_page_ok (page_reply refusing (listItemsRequest ''l'' 1))
   \<and> reports_more (page_reply refusing (listItemsRequest ''l'' 1))
   \<and> page_reply refusing (listItemsRequest ''l'' 2) = json refused
   \<and> ir_items (fst (fetchGatewayListItems refusing ''l'' None w0)) = [item ''b@x.com'']
   \<and> kv w_ab (kvKey ''l'') = Some st_ab
   \<and> js_truthy (ir_error (sync_fetched flaky ''l'' w_ab))
   \<and> fst (syncGatewayListFromKV flaky ''l'' w_ab) = sync_failed (ErrorText ''connection reset'')
   \<and> list_all (\<lambda>e. \<not> mutates e) (since w_ab (snd (syncGatewayListFromKV flaky ''l'' w_ab)))"
proof -
  have pre: "\<forall>j. 1 \<le> j \<and> j < 2 \<longrightarrow>
           items_page_ok (page_reply flaky (listItemsRequest ''l'' j))
           \<and> reports_more (page_reply flaky (listItemsRequest ''l'' j))"
    by (rule flaky_pages_before)
  have pre': "\<forall>j. 1 \<le> j \<and> j < 2 \<longrightarrow>
           items_page_ok (page_reply refusing (listItemsRequest ''l'' j))
           \<and> reports_more (page_reply refusing (listItemsRequest ''l'' j))"
    by (rule refusing_pages_before)
  have two: "(1::nat) \<le> 2" "(2::nat) \<le> 50"
    by simp_all
  have thrown: "fst (fetchGatewayListItems flaky ''l'' lv w) =
        \<lparr>ir_riskLevel = lv, ir_listId = ''l'', ir_items = [],
         ir_pagination = None, ir_error = Some ''connection reset''\<rparr>" for lv w
    using fetch_items_page_failure [OF two pre, of "''connection reset''" lv w]
    by (simp add: flaky_second_page)
  have partial: "ir_items (fst (fetchGatewayListItems refusing ''l'' None w0)) = [item ''b@x.com'']"
    using fetch_items_page_failure [OF two pre', of _ None w0]
    by (simp add: refusing_second_page refused_def refusing_collected [unfolded One_nat_def])
  have tag: "js_truthy (ir_error (sync_fetched flaky ''l'' w_ab))"
      "js_str (ir_error (sync_fetched flaky ''l'' w_ab)) = ''connection reset''"
    by (simp_all add: sync_fetched_def thrown js_truthy_def js_str_def)
  have caller: "fst (syncGatewayListFromKV flaky ''l'' w_ab) = sync_failed (ErrorText ''connection reset'')
      \<and> list_all (\<lambda>e. \<not> mutates e) (since w_ab (snd (syncGatewayListFromKV flaky ''l'' w_ab)))"
    using fetch_items_page_failure [OF two pre, of _ _ _ w_ab st_ab] kv_w_ab tag
    by simp
  show ?thesis
    using thrown [of None w0] partial caller kv_w_ab tag(1)
    by (simp add: flaky_first_page flaky_second_page refusing_first_page refusing_second_page
        items_page_ok_def reports_more_def page_of_def result_items_def js_less_def)
qed

text \<open>
  C3 (as stated) fails. With the first page [b@x.com] collected, a network error on page
  two makes fetchGatewayListItems return no items (not the item collected so far). With
  page two answered by success = false, the result carries no error tag, and
  syncGatewayListFromKV goes on as if the list were complete: it reports success after a
  PATCH that adds a@x.com.
\<close>

theorem fetch_items_page_failure_counterexample:
  "page_items flaky ''l'' 1 = [item ''b@x.com'']
   \<and> page_reply flaky (listItemsRequest ''l'' 2) = Inl ''connection reset''
   \<and> ir_items (fst (fetchGatewayListItems flaky ''l'' None w0)) = []
   \<and> page_items refusing ''l'' 1 = [item ''b@x.com'']
   \<and> page_reply refusing (listItemsRequest ''l'' 2) = json refused
   \<and> json refused = Inr \<lparr>data_success = False, data_errors = [''forbidden''],
         data_result = NoResult, data_page = None, data_total_pages = None\<rparr>
   \<and> ir_error (sync_fetched refusing ''l'' w_ab) = None
   \<and> sr_success (fst (syncGatewayListFromKV refusing ''l'' w_ab))
   \<and> sr_added (fst (syncGatewayListFromKV refusing ''l'' w_ab)) = Some 1"
proof -
  have pre: "\<forall>j. 1 \<le> j \<and> j < 2 \<longrightarrow>
           items_page_ok (page_reply flaky (listItemsRequest ''l'' j))
           \<and> reports_more (page_reply flaky (listItemsRequest ''l'' j))"
    by (rule flaky_pages_before)
  have pre': "\<forall>j. 1 \<le> j \<and> j < 2 \<longrightarrow>
           items_page_ok (page_reply refusing (listItemsRequest ''l'' j))
           \<and> reports_more (page_reply refusing (listItemsRequest ''l'' j))"
    by (rule refusing_pages_before)
  have l1: "fst (fetchGatewayListItems_loop flaky ''l'' 1 True 0 [] w) = Inl ''connection reset''" for w
    using fetchGatewayListItems_loop_failure [of 1 2 0 flaky "''l''" "''connection reset''" "[]" w]
      pre
    by (simp add: flaky_second_page)
  have thrown: "ir_items (fst (fetchGatewayListItems flaky ''l'' None w0)) = []"
    using l1 [of w0]
    by (cases "fetchGatewayListItems_loop flaky ''l'' 1 True 0 [] w0")
      (simp add: fetchGatewayListItems_def)
  have l2: "fst (fetchGatewayListItems_loop refusing ''l'' 1 True 0 [] w)
      = Inr ([item ''b@x.com''], 2, 2)" for w
    using fetchGatewayListItems_loop_failure [of 1 2 0 refusing "''l''" _ "[]" w] pre'
    by (simp add: refusing_second_page refused_def refusing_collected [unfolded One_nat_def])
  have f: "sync_fetched refusing ''l'' w_ab =
     \<lparr>ir_riskLevel = None, ir_listId = ''l'', ir_items = [item ''b@x.com''],
      ir_pagination = Some (1, 2, 1), ir_error = None\<rparr>"
    unfolding sync_fetched_def
    using l2 [of "emit (KVGet (kvKey ''l'')) w_ab"]
    by (cases "fetchGatewayListItems_loop refusing ''l'' 1 True 0 [] (emit (KVGet (kvKey ''l'')) w_ab)")
      (simp add: fetchGatewayListItems_def)
  have e: "emails st_ab = [''a@x.com'', ''b@x.com'']"
    by (simp add: st_ab_def expectedStateOf_def alice_def bob_def)
  have d: "sync_toAdd st_ab (sync_fetched refusing ''l'' w_ab) = [''a@x.com'']"
      "sync_toRemove st_ab (sync_fetched refusing ''l'' w_ab) = []"
    by (simp_all add: f e sync_toAdd_def sync_toRemove_def emailsToAdd_def emailsToRemove_def
        new_Set_def item_def)
  have p: "page_reply refusing (sync_patch ''l'' st_ab (sync_fetched refusing ''l'' w_ab))
      = json (page_of NoResult 1 1)"
    by (rule page_reply_first_attempt)
      (simp_all add: refusing_def sync_patch_def patchRequest_def page_of_def)
  have nt: "\<not> js_truthy (ir_error (sync_fetched refusing ''l'' w_ab))"
    by (simp add: f js_truthy_def)
  have res: "sr_success (fst (syncGatewayListFromKV refusing ''l'' w_ab))
      \<and> sr_added (fst (syncGatewayListFromKV refusing ''l'' w_ab)) = Some 1"
    using syncGatewayListFromKV_fetched [OF kv_w_ab nt]
      sync_changes_patch(2) [of st_ab "sync_fetched refusing ''l'' w_ab" refusing "''l''"
        "sync_after_fetch refusing ''l'' w_ab"]
    by (simp add: d p page_of_def)
  have items1: "page_items flaky ''l'' 1 = [item ''b@x.com'']"
      "page_items refusing ''l'' 1 = [item ''b@x.com'']"
    by (simp_all add: first_page_items)
  show ?thesis
    using thrown res items1
    by (simp add: flaky_second_page refusing_second_page refused_def f)
qed

section \<open>The full-replace path and the drift flag\<close>



lemma listInfoRequest_GET: "req_method (listInfoRequest listId) = GET"
  by (simp add: listInfoRequest_def)

lemma reads_of_bounded: "bounded_reads n tr \<Longrightarrow> list_all (\<lambda>e. \<not> mutates e) tr"
  by (simp add: bounded_reads_def)

lemma kv_get_reads: "run (list_all (\<lambda>e. \<not> mutates e)) w (snd (kv_get k w))"
  by (rule run_weaken [OF kv_get_run]) (auto simp: mutates_def)

text \<open>
  updateGatewayList never gets past the test of \<open>currentItemsResult.success\<close>: for every
  answer of the API and every state of the namespace it reports failure and has made no
  PUT and no KV put.
\<close>

lemma updateGatewayList_returns_early:
  "\<not> ur_success (fst (updateGatewayList http listId users today t1 t2 t3 w))
   \<and> ur_reconciliationNeeded (fst (updateGatewayList http listId users today t1 t2 t3 w)) = None
   \<and> kv (snd (updateGatewayList http listId users today t1 t2 t3 w)) = kv w
   \<and> list_all (\<lambda>e. \<not> mutates e)
        (since w (snd (updateGatewayList http listId users today t1 t2 t3 w)))"
proof -
  define wg where "wg = snd (kv_get (kvKey listId) w)"
  define w1 where "w1 = snd (makeApiRequest http (listInfoRequest listId) 3 wg)"
  define w2 where "w2 = snd (fetchGatewayListItems http listId None w1)"
  have r0: "run (list_all (\<lambda>e. \<not> mutates e)) w wg"
    unfolding wg_def by (rule kv_get_reads)
  have r1: "run (list_all (\<lambda>e. \<not> mutates e)) wg w1"
    unfolding w1_def
    by (rule run_weaken [OF run_page_request [OF listInfoRequest_GET]]) (rule reads_of_bounded)
  have r2: "run (list_all (\<lambda>e. \<not> mutates e)) w1 w2"
    unfolding w2_def
    by (rule run_weaken [OF fetchGatewayListItems_bounded]) (rule reads_of_bounded)
  have r01: "run (list_all (\<lambda>e. \<not> mutates e)) w w1"
    using r0 r1 by (rule run_seq) (rule reads_append)
  have r02: "run (list_all (\<lambda>e. \<not> mutates e)) w w2"
    using r01 r2 by (rule run_seq) (rule reads_append)
  have res: "\<not> ur_success (fst (updateGatewayList http listId users today t1 t2 t3 w))
      \<and> ur_reconciliationNeeded (fst (updateGatewayList http listId users today t1 t2 t3 w)) = None"
    by (simp add: updateGatewayList_def Let_def case_prod_beta ir_success_def update_failed_def
        split: sum.splits)
  have w': "snd (updateGatewayList http listId users today t1 t2 t3 w) = wg
      \<or> snd (updateGatewayList http listId users today t1 t2 t3 w) = w1
      \<or> snd (updateGatewayList http listId users today t1 t2 t3 w) = w2"
    by (simp add: updateGatewayList_def Let_def case_prod_beta ir_success_def wg_def w1_def
        w2_def split: sum.splits)
  then have r: "run (list_all (\<lambda>e. \<not> mutates e)) w
      (snd (updateGatewayList http listId users today t1 t2 t3 w))"
    using r0 r01 r02 by auto
  show ?thesis
    using res run_kv [OF r] run_since [OF r] by simp
qed

text \<open>
  The code behind that test would not set the flag either: step 4 tests
  \<open>verifyResult.success\<close>, which no result of fetchGatewayListItems has, so the comparison
  and the put of the flag are skipped; and step 2 is skipped because a \<open>Set\<close> has no
  \<open>length\<close>.
\<close>

lemma updateGatewayList_verify_unflagged:
  "updateGatewayList_verify http listId targetEmails newExpectedState t3 w
     = (Inr False, snd (fetchGatewayListItems http listId None (emit (Sleep (Millis 3000)) w)))"
  by (simp add: updateGatewayList_verify_def case_prod_beta ir_success_def)

lemma updateGatewayList_add_skipped:
  "updateGatewayList_add http listId name description targetEmails today w = (None, w)"
  by (simp add: updateGatewayList_add_def Set_length_def js_less_def)

text \<open>
  No operation sets the drift flag of any list: storeExpectedStateInKV writes a state
  without it or nothing, and syncGatewayListFromKV, handleReconciliation and
  updateGatewayList leave the namespace as it is. A namespace without a flag stays
  without one, so handleReconciliation always reports \<open>reconciliationNeeded: false\<close>.
\<close>

lemma drift_flag_kv: "kv w' = kv w \<Longrightarrow> drift_flag w' listId = drift_flag w listId"
  by (simp add: drift_flag_def)

lemma handleReconciliation_kv:
  "kv (snd (handleReconciliation http highRiskListId mediumRiskListId lowRiskListId now w)) = kv w"
proof -
  have "run (list_all (\<lambda>e. \<not> mutates e)) w
      (snd (handleReconciliation http highRiskListId mediumRiskListId lowRiskListId now w))"
    using handleReconciliation_loop_reads
      [of w http "[(highRiskListId, ''high''), (mediumRiskListId, ''medium''),
                   (lowRiskListId, ''low'')]" "[]"]
    by (simp add: handleReconciliation_def case_prod_beta split: sum.splits)
  then show ?thesis by (rule run_kv)
qed

lemma drift_flag_storeExpectedStateInKV:
  "drift_flag (snd (storeExpectedStateInKV l users level now w)) listId \<Longrightarrow> drift_flag w listId"
proof (cases "put_accepted w (kvKey l)")
  case True
  assume "drift_flag (snd (storeExpectedStateInKV l users level now w)) listId"
  then show ?thesis
    by (simp add: drift_flag_def kv_storeExpectedStateInKV [OF True] expectedStateOf_def
        split: if_splits)
next
  case False
  have "kv (snd (storeExpectedStateInKV l users level now w)) = kv w"
    using kv_put_thrown [OF False, of "expectedStateOf users level now" None]
    by (simp add: storeExpectedStateInKV_def case_prod_beta split: option.splits)
  moreover assume "drift_flag (snd (storeExpectedStateInKV l users level now w)) listId"
  ultimately show ?thesis
    by (simp add: drift_flag_def)
qed

lemma drift_flag_handleRequest_notfetch:
  "drift_flag (snd (handleRequest_notfetch http highId mediumId lowId t1 t2 t3 w)) listId
     \<Longrightarrow> drift_flag w listId"
proof -
  assume a: "drift_flag (snd (handleRequest_notfetch http highId mediumId lowId t1 t2 t3 w)) listId"
  define w1 where "w1 = snd (fetchAllUserRiskScores http w)"
  have k1: "drift_flag w1 l = drift_flag w l" for l
    unfolding w1_def by (rule drift_flag_kv [OF run_kv [OF fetchAllUserRiskScores_bounded]])
  show ?thesis
  proof (cases "rr_success (fst (fetchAllUserRiskScores http w))")
    case False
    then show ?thesis
      using a k1 by (simp add: handleRequest_notfetch_def case_prod_beta w1_def)
  next
    case True
    define us where
      "us = (case rr_users (fst (fetchAllUserRiskScores http w)) of None \<Rightarrow> [] | Some us \<Rightarrow> us)"
    define w2 where "w2 = snd (storeExpectedStateInKV highId (highRiskUsers us) ''high'' t1 w1)"
    define w3 where
      "w3 = snd (storeExpectedStateInKV mediumId (mediumRiskUsers us) ''medium'' t2 w2)"
    define w4 where "w4 = snd (storeExpectedStateInKV lowId (lowRiskUsers us) ''low'' t3 w3)"
    have "kv (snd (handleRequest_notfetch http highId mediumId lowId t1 t2 t3 w)) = kv w4"
      using True
      by (simp add: handleRequest_notfetch_def case_prod_beta Let_def kv_syncGatewayListFromKV
          w1_def w2_def w3_def w4_def us_def)
    then have "drift_flag w4 listId"
      using a by (simp add: drift_flag_def)
    then have "drift_flag w3 listId"
      unfolding w4_def by (rule drift_flag_storeExpectedStateInKV)
    then have "drift_flag w2 listId"
      unfolding w3_def by (rule drift_flag_storeExpectedStateInKV)
    then have "drift_flag w1 listId"
      unfolding w2_def by (rule drift_flag_storeExpectedStateInKV)
    then show ?thesis
      by (simp add: k1)
  qed
qed

lemma drift_flag_never_set:
  "drift_flag (snd (storeExpectedStateInKV l users level now w)) listId \<longrightarrow> drift_flag w listId"
  "drift_flag (snd (syncGatewayListFromKV http l w)) listId = drift_flag w listId"
  "drift_flag (snd (handleRequest_notfetch http highId mediumId lowId t1 t2 t3 w)) listId
     \<longrightarrow> drift_flag w listId"
  "drift_flag (snd (handleReconciliation http highId mediumId lowId now w)) listId
     = drift_flag w listId"
  "drift_flag (snd (updateGatewayList http l users today t1 t2 t3 w)) listId = drift_flag w listId"
proof -
  show "drift_flag (snd (storeExpectedStateInKV l users level now w)) listId \<longrightarrow> drift_flag w listId"
    using drift_flag_storeExpectedStateInKV by blast
  show "drift_flag (snd (syncGatewayListFromKV http l w)) listId = drift_flag w listId"
    by (rule drift_flag_kv [OF kv_syncGatewayListFromKV])
  show "drift_flag (snd (handleRequest_notfetch http highId mediumId lowId t1 t2 t3 w)) listId
     \<longrightarrow> drift_flag w listId"
    using drift_flag_handleRequest_notfetch by blast
  show "drift_flag (snd (handleReconciliation http highId mediumId lowId now w)) listId
     = drift_flag w listId"
    by (rule drift_flag_kv [OF handleReconciliation_kv])
  show "drift_flag (snd (updateGatewayList http l users today t1 t2 t3 w)) listId = drift_flag w listId"
    using updateGatewayList_returns_early [of http l users today t1 t2 t3 w]
    by (simp add: drift_flag_def)
qed





end
